theory Spec2Isabelle
  imports Main "HOL-Library.Sublist"
begin

section \<open>Character tables (build\_db.py, lines 15--56)\<close>

text \<open>
  Python strings are modelled as \<open>string\<close>; the two module-level lists keep their order.
\<close>

definition cons :: "string list" where
  "cons = [''kh'', ''ng'', ''ny'', ''sy'', ''b'', ''c'', ''d'', ''f'', ''g'', ''h'', ''j'',
           ''k'', ''l'', ''m'', ''n'', ''p'', ''q'', ''r'', ''s'', ''t'', ''v'', ''w'', ''x'',
           ''y'', ''z'']"

definition vocabs :: "string list" where
  "vocabs = [''ai'', ''au'', ''ei'', ''oi'', ''a'', ''i'', ''u'', ''e'', ''o'']"

definition is_vocal :: "string \<Rightarrow> bool" where
  "is_vocal c = (c \<in> set vocabs)"

section \<open>The regular expressions of the module\<close>

text \<open>
  Every pattern of the module is an alternation of literal strings and of one character
  class. Such a pattern is the ordered list of its alternatives, a character class being
  the alternation of its characters. A backtracking matcher takes the first alternative
  that is a prefix of the text, since nothing follows the group.
\<close>

definition char_class :: "string \<Rightarrow> string list" where
  "char_class cs = map (\<lambda>c. [c]) cs"

text \<open>\<open>pattern.match(word)\<close> for an anchored alternation: the matched text, if any.\<close>

definition re_match :: "string list \<Rightarrow> string \<Rightarrow> string option" where
  "re_match alts word = find (\<lambda>a. prefix a word) alts"

text \<open>
  \<open>pattern.search(text)\<close>: the span of the leftmost match, start positions tried from
  left to right up to the end of the text.
\<close>

fun search_at :: "string list \<Rightarrow> nat \<Rightarrow> string \<Rightarrow> (nat \<times> nat) option" where
  "search_at alts i [] =
     (case re_match alts [] of Some m \<Rightarrow> Some (i, i + length m) | None \<Rightarrow> None)"
| "search_at alts i (c # w) =
     (case re_match alts (c # w) of
        Some m \<Rightarrow> Some (i, i + length m)
      | None \<Rightarrow> search_at alts (Suc i) w)"

definition re_search :: "string list \<Rightarrow> string \<Rightarrow> (nat \<times> nat) option" where
  "re_search alts text = search_at alts 0 text"

text \<open>\<open>re_vocab = re.compile('(ai|au|ei|oi|[aiueo])')\<close>, line 141.\<close>

definition re_vocab :: "string list" where
  "re_vocab = [''ai'', ''au'', ''ei'', ''oi''] @ char_class ''aiueo''"

section \<open>split\_char (lines 212--230)\<close>

text \<open>\<open>gab_kons\<close> and \<open>v_pattern\<close>, both anchored with \<open>^\<close>, and the list \<open>patterns\<close>.\<close>

definition gab_kons :: "string list" where
  "gab_kons = [''kh'', ''ng'', ''ny'', ''sy''] @ char_class ''bcdfghjklmnpqrstvwxyz''"

definition v_pattern :: "string list" where
  "v_pattern = char_class ''aiueo''"

definition patterns :: "(string list \<times> string) list" where
  "patterns = [(gab_kons, ''konsonan''), (v_pattern, ''vocal'')]"

text \<open>
  The inner \<open>for (pattern, tag) in patterns\<close> loop: each pattern is tried in turn on the
  current \<open>word\<close>, and a match is cut off the front of \<open>word\<close> and appended to \<open>result\<close>
  before the next pattern is tried.
\<close>

fun try_patterns ::
  "(string list \<times> string) list \<Rightarrow> string \<Rightarrow> (string \<times> string) list
     \<Rightarrow> string \<times> (string \<times> string) list" where
  "try_patterns [] word result = (word, result)"
| "try_patterns ((pattern, tag) # ps) word result =
     (case re_match pattern word of
        Some match_w \<Rightarrow>
          try_patterns ps (drop (length match_w) word) (result @ [(match_w, tag)])
      | None \<Rightarrow> try_patterns ps word result)"

text \<open>
  The outer \<open>while word != ''\<close> loop. Nothing in the body raises and nothing bounds the
  number of rounds, so the loop is a partial function: \<open>None\<close> is the loop that never
  ends.
\<close>

partial_function (option) split_loop ::
  "string \<Rightarrow> (string \<times> string) list \<Rightarrow> (string \<times> string) list option" where
  "split_loop word result =
     (if word = [] then Some result
      else case try_patterns patterns word result of
             (word', result') \<Rightarrow> split_loop word' result')"

definition split_char :: "string \<Rightarrow> (string \<times> string) list option" where
  "split_char s = split_loop s []"

section \<open>parse\_token and tokenize (lines 185--241)\<close>

text \<open>
  The dictionaries built by \<open>parse_token\<close> have fixed keys and are records; the field
  names are the keys, prefixed by the kind of dictionary, since the keys \<open>onset\<close>,
  \<open>coda\<close> and \<open>nucleus\<close> are attributes of \<open>FDPoint\<close> as well.
\<close>

record syllable =
  tok_token :: string
  tok_nucleus :: string
  tok_onset :: string
  tok_coda :: string

record parsed_word =
  pw_word :: string
  pw_tokens :: "syllable list"

text \<open>
  The body of the loop over \<open>tokens\<close> (lines 192--208) for one token: \<open>None\<close> is the
  \<open>continue\<close> taken when \<open>re_vocab.search\<close> finds nothing. The slices \<open>token[:a]\<close>,
  \<open>token[a:b]\<close> and \<open>token[b:]\<close> are \<open>take\<close> and \<open>drop\<close>.
\<close>

definition decompose :: "string \<Rightarrow> syllable option" where
  "decompose token =
     (case re_search re_vocab token of
        None \<Rightarrow> None
      | Some (nucleus_start, nucleus_end) \<Rightarrow>
          Some \<lparr>tok_token = token,
                tok_nucleus = drop nucleus_start (take nucleus_end token),
                tok_onset = take nucleus_start token,
                tok_coda = drop nucleus_end token\<rparr>)"

fun parse_loop :: "string list \<Rightarrow> syllable list \<Rightarrow> syllable list" where
  "parse_loop [] result = result"
| "parse_loop (token # tokens) result =
     (case decompose token of
        None \<Rightarrow> parse_loop tokens result
      | Some t \<Rightarrow> parse_loop tokens (result @ [t]))"

text \<open>
  \<open>parser.parse\<close> belongs to the module \<open>fono.parser\<close>, which is outside this file: it is
  the parameter \<open>parse\<close>.
\<close>

definition parse_token :: "(string \<Rightarrow> string list) \<Rightarrow> string \<Rightarrow> parsed_word" where
  "parse_token parse word = \<lparr>pw_word = word, pw_tokens = parse_loop (parse word) []\<rparr>"

text \<open>\<open>tokenize\<close>, with the unpickled word list as the parameter \<open>database\<close>.\<close>

definition tokenize :: "(string \<Rightarrow> string list) \<Rightarrow> string list \<Rightarrow> parsed_word list" where
  "tokenize parse database = map (parse_token parse) database"

section \<open>count\_syllables (lines 244--270)\<close>

datatype error = KeyError string | Unknown_value | Coda_is_not_in | Onset_is_not_in

text \<open>
  A block that mutates its data in place and may raise: \<open>Completed s\<close> is the normal end
  with the data as \<open>s\<close>, \<open>Raised e s\<close> is the exception \<open>e\<close> with the data as the
  mutations done before the \<open>raise\<close> left them.
\<close>

datatype 's outcome = Completed 's | Raised error 's

fun outcome_state :: "'s outcome \<Rightarrow> 's" where
  "outcome_state (Completed s) = s"
| "outcome_state (Raised e s) = s"

record kons_count =
  cnt_onset :: int
  cnt_coda :: int

type_synonym kons_counters = "string \<rightharpoonup> kons_count"
type_synonym vocab_counters = "string \<rightharpoonup> int"

record SyllCounter =
  vocab :: vocab_counters
  kons :: kons_counters

definition kons_counters_init :: kons_counters where
  "kons_counters_init = map_of (map (\<lambda>c. (c, \<lparr>cnt_onset = 0, cnt_coda = 0\<rparr>)) cons)"

definition vocab_counters_init :: vocab_counters where
  "vocab_counters_init = map_of (map (\<lambda>c. (c, 0)) vocabs)"

text \<open>
  \<open>for (char, _) in units: kons_counters[char]['onset'] += 1\<close>: the lookup of a \<open>char\<close>
  that is not a key raises \<open>KeyError\<close>, the increments before it are done.
\<close>

fun count_onset :: "(string \<times> string) list \<Rightarrow> kons_counters \<Rightarrow> kons_counters outcome" where
  "count_onset [] k = Completed k"
| "count_onset ((char, tag) # units) k =
     (case k char of
        None \<Rightarrow> Raised (KeyError char) k
      | Some c \<Rightarrow> count_onset units (k(char \<mapsto> c\<lparr>cnt_onset := cnt_onset c + 1\<rparr>)))"

fun count_coda :: "(string \<times> string) list \<Rightarrow> kons_counters \<Rightarrow> kons_counters outcome" where
  "count_coda [] k = Completed k"
| "count_coda ((char, tag) # units) k =
     (case k char of
        None \<Rightarrow> Raised (KeyError char) k
      | Some c \<Rightarrow> count_coda units (k(char \<mapsto> c\<lparr>cnt_coda := cnt_coda c + 1\<rparr>)))"

text \<open>
  The \<open>try\<close> block (lines 262--266) on one token. \<open>split_char\<close> is called before each
  loop; where it does not return, neither does the block (\<open>None\<close>).
\<close>

definition count_try ::
  "syllable \<Rightarrow> vocab_counters \<times> kons_counters
     \<Rightarrow> (vocab_counters \<times> kons_counters) outcome option" where
  "count_try token st =
     (case st of (v, k) \<Rightarrow>
      (case split_char (tok_onset token) of
         None \<Rightarrow> None
       | Some onset_units \<Rightarrow>
          (case count_onset onset_units k of
             Raised e k1 \<Rightarrow> Some (Raised e (v, k1))
           | Completed k1 \<Rightarrow>
              (case split_char (tok_coda token) of
                 None \<Rightarrow> None
               | Some coda_units \<Rightarrow>
                  (case count_coda coda_units k1 of
                     Raised e k2 \<Rightarrow> Some (Raised e (v, k2))
                   | Completed k2 \<Rightarrow>
                      (case v (tok_nucleus token) of
                         None \<Rightarrow> Some (Raised (KeyError (tok_nucleus token)) (v, k2))
                       | Some n \<Rightarrow>
                          Some (Completed (v(tok_nucleus token \<mapsto> n + 1), k2))))))))"

text \<open>\<open>except Exception as ex: continue\<close>: either way the loop goes on with the counters.\<close>

definition count_token ::
  "syllable \<Rightarrow> vocab_counters \<times> kons_counters \<Rightarrow> (vocab_counters \<times> kons_counters) option" where
  "count_token token st = map_option outcome_state (count_try token st)"

fun count_tokens ::
  "syllable list \<Rightarrow> vocab_counters \<times> kons_counters \<Rightarrow> (vocab_counters \<times> kons_counters) option" where
  "count_tokens [] st = Some st"
| "count_tokens (token # tokens) st =
     (case count_token token st of None \<Rightarrow> None | Some st' \<Rightarrow> count_tokens tokens st')"

fun count_data ::
  "parsed_word list \<Rightarrow> vocab_counters \<times> kons_counters
     \<Rightarrow> (vocab_counters \<times> kons_counters) option" where
  "count_data [] st = Some st"
| "count_data (data # rest) st =
     (case count_tokens (pw_tokens data) st of None \<Rightarrow> None | Some st' \<Rightarrow> count_data rest st')"

definition count_syllables :: "parsed_word list \<Rightarrow> SyllCounter option" where
  "count_syllables tokens =
     map_option (\<lambda>(v, k). \<lparr>vocab = v, kons = k\<rparr>)
       (count_data tokens (vocab_counters_init, kons_counters_init))"

section \<open>Feature descriptions (lines 59--136)\<close>

text \<open>
  The dataclasses are records. \<open>FDType.points\<close> is a dictionary whose order of insertion
  is read by \<open>asdict\<close>, so it is an association list. The fields \<open>name\<close>, \<open>plus\<close> and
  \<open>minus\<close> of \<open>FD\<close> carry the prefix \<open>fd_\<close>.
\<close>

record FDPoint =
  letter :: string
  nucleus :: int
  coda :: int
  onset :: int

record FDType =
  ftype :: string
  points :: "(string \<times> FDPoint) list"

record FD =
  fd_name :: string
  fd_plus :: FDType
  fd_minus :: FDType

text \<open>
  A value of the map given to \<open>count_in_map\<close>: an \<open>int\<close>, a \<open>dict\<close> (read at the keys
  \<open>'coda'\<close> and \<open>'onset'\<close> only, with integer entries as \<open>count_syllables\<close> builds them)
  or a value of any other type.
\<close>

datatype counter_value = IntVal int | DictVal "string \<rightharpoonup> int" | OtherVal

type_synonym counter_map = "string \<rightharpoonup> counter_value"

text \<open>
  \<open>FDPoint.count_in_map\<close> (lines 75--91). Every \<open>raise\<close> comes before the first
  assignment, so the point is unchanged when the method raises.
\<close>

definition FDPoint_count_in_map :: "FDPoint \<Rightarrow> counter_map \<Rightarrow> error + FDPoint" where
  "FDPoint_count_in_map self m =
     (case m (letter self) of
        None \<Rightarrow> Inr self
      | Some val \<Rightarrow>
          if is_vocal (letter self) then
            (case val of
               IntVal n \<Rightarrow> Inr (self\<lparr>nucleus := n\<rparr>)
             | _ \<Rightarrow> Inl Unknown_value)
          else
            (case val of
               DictVal d \<Rightarrow>
                 (case d ''coda'' of
                    None \<Rightarrow> Inl Coda_is_not_in
                  | Some c \<Rightarrow>
                      (case d ''onset'' of
                         None \<Rightarrow> Inl Onset_is_not_in
                       | Some on \<Rightarrow> Inr (self\<lparr>coda := c, onset := on\<rparr>)))
             | _ \<Rightarrow> Inl Unknown_value))"

datatype point_doc =
  Vocal_doc string int
| Kons_doc string int int int

text \<open>\<open>FDPoint.asdict\<close>: \<open>letter\<close> and \<open>total\<close>, or \<open>letter\<close>, \<open>coda\<close>, \<open>onset\<close>, \<open>total\<close>.\<close>

definition FDPoint_asdict :: "FDPoint \<Rightarrow> point_doc" where
  "FDPoint_asdict self =
     (if is_vocal (letter self) then Vocal_doc (letter self) (nucleus self)
      else Kons_doc (letter self) (coda self) (onset self) (coda self + onset self))"

definition add_letter :: "FDType \<Rightarrow> string \<Rightarrow> FDType" where
  "add_letter self char =
     (if char \<in> fst ` set (points self) then self
      else self\<lparr>points := points self @
             [(char, \<lparr>letter = char, nucleus = 0, coda = 0, onset = 0\<rparr>)]\<rparr>)"

text \<open>The loop of \<open>FDType.count_in_map\<close> over \<open>self.points.values()\<close>.\<close>

fun points_count_in_map ::
  "(string \<times> FDPoint) list \<Rightarrow> counter_map \<Rightarrow> (string \<times> FDPoint) list outcome" where
  "points_count_in_map [] m = Completed []"
| "points_count_in_map ((key, fd_point) # rest) m =
     (case FDPoint_count_in_map fd_point m of
        Inl e \<Rightarrow> Raised e ((key, fd_point) # rest)
      | Inr fd_point' \<Rightarrow>
          (case points_count_in_map rest m of
             Completed rest' \<Rightarrow> Completed ((key, fd_point') # rest')
           | Raised e rest' \<Rightarrow> Raised e ((key, fd_point') # rest')))"

definition FDType_count_in_map :: "FDType \<Rightarrow> counter_map \<Rightarrow> FDType outcome" where
  "FDType_count_in_map self m =
     (case points_count_in_map (points self) m of
        Completed ps \<Rightarrow> Completed (self\<lparr>points := ps\<rparr>)
      | Raised e ps \<Rightarrow> Raised e (self\<lparr>points := ps\<rparr>))"

record type_doc =
  doc_ftype :: string
  doc_points :: "point_doc list"

definition FDType_asdict :: "FDType \<Rightarrow> type_doc" where
  "FDType_asdict self =
     \<lparr>doc_ftype = ftype self, doc_points = map (\<lambda>(_, v). FDPoint_asdict v) (points self)\<rparr>"

text \<open>\<open>FD.count_in_map\<close>: \<open>plus\<close>, then \<open>minus\<close> unless \<open>plus\<close> raised.\<close>

definition FD_count_in_map :: "FD \<Rightarrow> counter_map \<Rightarrow> FD outcome" where
  "FD_count_in_map self counter_map =
     (case FDType_count_in_map (fd_plus self) counter_map of
        Raised e p \<Rightarrow> Raised e (self\<lparr>fd_plus := p\<rparr>)
      | Completed p \<Rightarrow>
          (case FDType_count_in_map (fd_minus self) counter_map of
             Raised e mi \<Rightarrow> Raised e (self\<lparr>fd_plus := p, fd_minus := mi\<rparr>)
           | Completed mi \<Rightarrow> Completed (self\<lparr>fd_plus := p, fd_minus := mi\<rparr>)))"

record fd_doc =
  doc_name :: string
  doc_plus :: type_doc
  doc_minus :: type_doc

definition FD_asdict :: "FD \<Rightarrow> fd_doc" where
  "FD_asdict self =
     \<lparr>doc_name = fd_name self,
      doc_plus = FDType_asdict (fd_plus self),
      doc_minus = FDType_asdict (fd_minus self)\<rparr>"

section \<open>load\_fitures\_spec (lines 273--292) and the main block (lines 334--346)\<close>

text \<open>
  \<open>str.strip()\<close> removes the white space of Python at both ends; among the code points
  below 256 these are 9 to 13, 28 to 32, 133 and 160.
\<close>

definition is_space :: "char \<Rightarrow> bool" where
  "is_space c = (let n = (of_char c :: nat) in
                   (9 \<le> n \<and> n \<le> 13) \<or> (28 \<le> n \<and> n \<le> 32) \<or> n = 133 \<or> n = 160)"

definition strip :: "string \<Rightarrow> string" where
  "strip s = rev (dropWhile is_space (rev (dropWhile is_space s)))"

text \<open>\<open>line.split(' ')\<close>: the pieces between single spaces, empty pieces kept.\<close>

fun split_on :: "char \<Rightarrow> string \<Rightarrow> string list" where
  "split_on sep [] = [[]]"
| "split_on sep (c # cs) =
     (if c = sep then [] # split_on sep cs
      else (case split_on sep cs of
              [] \<Rightarrow> [[c]]
            | piece # pieces \<Rightarrow> (c # piece) # pieces))"

text \<open>
  \<open>for fitur_flag, fd in zip(fitur_flags, fit_descs)\<close>: the descriptions are changed in
  place, those beyond the last flag stay as they are.
\<close>

fun apply_flags :: "string list \<Rightarrow> string \<Rightarrow> FD list \<Rightarrow> FD list" where
  "apply_flags (fitur_flag # fitur_flags) char (fd # fit_descs) =
     (if fitur_flag = ''+'' then fd\<lparr>fd_plus := add_letter (fd_plus fd) char\<rparr>
      else if fitur_flag = ''-'' then fd\<lparr>fd_minus := add_letter (fd_minus fd) char\<rparr>
      else fd) # apply_flags fitur_flags char fit_descs"
| "apply_flags fitur_flags char fit_descs = fit_descs"

fun load_lines :: "string list \<Rightarrow> FD list \<Rightarrow> FD list" where
  "load_lines [] fit_descs = fit_descs"
| "load_lines (line # lines) fit_descs =
     (case split_on CHR '' '' (strip line) of
        [] \<Rightarrow> load_lines lines fit_descs
      | char # fitur_flags \<Rightarrow> load_lines lines (apply_flags fitur_flags char fit_descs))"

text \<open>
  \<open>load_fitures_spec\<close>, with the lines read from the file at \<open>path\<close> as the parameter
  \<open>lines\<close>.
\<close>

definition load_fitures_spec :: "string list \<Rightarrow> string list \<Rightarrow> FD list" where
  "load_fitures_spec fiturs lines =
     load_lines lines
       (map (\<lambda>name. \<lparr>fd_name = name,
                      fd_plus = \<lparr>ftype = ''plus'', points = []\<rparr>,
                      fd_minus = \<lparr>ftype = ''minus'', points = []\<rparr>\<rparr>) fiturs)"

text \<open>
  The loop \<open>for fd in kons_fiturs: fd.count_in_map(ckons)\<close> of the main block; an
  exception of one description leaves the later ones untouched.
\<close>

fun count_in_map_all :: "FD list \<Rightarrow> counter_map \<Rightarrow> FD list outcome" where
  "count_in_map_all [] m = Completed []"
| "count_in_map_all (fd # fds) m =
     (case FD_count_in_map fd m of
        Raised e fd' \<Rightarrow> Raised e (fd' # fds)
      | Completed fd' \<Rightarrow>
          (case count_in_map_all fds m of
             Completed fds' \<Rightarrow> Completed (fd' # fds')
           | Raised e fds' \<Rightarrow> Raised e (fd' # fds')))"

text \<open>
  The two maps of \<open>count_syllables\<close> as arguments of \<open>count_in_map\<close>: \<open>counter.kons\<close>
  holds dictionaries with the keys \<open>'onset'\<close> and \<open>'coda'\<close>, \<open>counter.vocab\<close> holds
  integers.
\<close>

definition ckons :: "SyllCounter \<Rightarrow> counter_map" where
  "ckons counter =
     (\<lambda>c. map_option (\<lambda>e. DictVal [''onset'' \<mapsto> cnt_onset e, ''coda'' \<mapsto> cnt_coda e])
             (kons counter c))"

definition cvoc :: "SyllCounter \<Rightarrow> counter_map" where
  "cvoc counter = (\<lambda>c. map_option IntVal (vocab counter c))"

record tagged_doc =
  td_doc :: fd_doc
  td_tag :: string

text \<open>\<open>[{ **fd.asdict(), 'tag': tag } for fd in fiturs]\<close>.\<close>

definition documents :: "FD list \<Rightarrow> string \<Rightarrow> tagged_doc list" where
  "documents fiturs tag = map (\<lambda>fd. \<lparr>td_doc = FD_asdict fd, td_tag = tag\<rparr>) fiturs"

section \<open>Notions used in the statements\<close>

text \<open>The characters that occur in the two tables, and the letters of the vowel class.\<close>

definition alphabet :: "char list" where
  "alphabet = concat (cons @ vocabs)"

definition vowel_letters :: "char list" where
  "vowel_letters = ''aiueo''"

definition digraphs :: "string list" where
  "digraphs = [''kh'', ''ng'', ''ny'', ''sy'']"

definition diphthongs :: "string list" where
  "diphthongs = [''ai'', ''au'', ''ei'', ''oi'']"

text \<open>A unit whose tag agrees with the table its text belongs to.\<close>

definition well_classed :: "string \<times> string \<Rightarrow> bool" where
  "well_classed u =
     ((snd u = ''konsonan'' \<and> fst u \<in> set cons \<and> fst u \<notin> set vocabs) \<or>
      (snd u = ''vocal'' \<and> fst u \<in> set vocabs \<and> fst u \<notin> set cons))"

text \<open>
  The unit at the front of a text: the first alternative of \<open>gab_kons\<close> that matches,
  otherwise the first alternative of \<open>v_pattern\<close>. A list of units is a chain for a text
  when each unit is the one at the front of what the units before it have left, and
  nothing is left at the end.
\<close>

definition first_unit :: "string \<Rightarrow> (string \<times> string) option" where
  "first_unit w =
     (case re_match gab_kons w of
        Some m \<Rightarrow> Some (m, ''konsonan'')
      | None \<Rightarrow> (case re_match v_pattern w of Some m \<Rightarrow> Some (m, ''vocal'') | None \<Rightarrow> None))"

fun unit_path :: "string \<Rightarrow> (string \<times> string) list \<Rightarrow> string \<Rightarrow> bool" where
  "unit_path w [] w' = (w' = w)"
| "unit_path w (u # us) w' = (first_unit w = Some u \<and> unit_path (drop (length (fst u)) w) us w')"

definition unit_chain :: "string \<Rightarrow> (string \<times> string) list \<Rightarrow> bool" where
  "unit_chain w us = unit_path w us []"

text \<open>The increments of \<open>count_syllables\<close> as functions on the consonant counters.\<close>

definition hit_onset :: "string \<Rightarrow> kons_counters \<Rightarrow> kons_counters" where
  "hit_onset char k = (case k char of None \<Rightarrow> k
                       | Some c \<Rightarrow> k(char \<mapsto> c\<lparr>cnt_onset := cnt_onset c + 1\<rparr>))"

definition hit_coda :: "string \<Rightarrow> kons_counters \<Rightarrow> kons_counters" where
  "hit_coda char k = (case k char of None \<Rightarrow> k
                      | Some c \<Rightarrow> k(char \<mapsto> c\<lparr>cnt_coda := cnt_coda c + 1\<rparr>))"

definition tracked :: "kons_counters \<Rightarrow> string \<times> string \<Rightarrow> bool" where
  "tracked k u = (fst u \<in> dom k)"

fun is_raised :: "'s outcome \<Rightarrow> bool" where
  "is_raised (Raised e s) = True"
| "is_raised (Completed s) = False"

text \<open>
  A value has the shape a letter asks for: an integer for a vowel of \<open>vocabs\<close>, a
  dictionary with both \<open>'coda'\<close> and \<open>'onset'\<close> for any other letter. A point is
  mismatched by a map that holds its letter with a value of the other shape.
\<close>

definition fits_letter :: "string \<Rightarrow> counter_value \<Rightarrow> bool" where
  "fits_letter l val =
     (if is_vocal l then (case val of IntVal n \<Rightarrow> True | _ \<Rightarrow> False)
      else (case val of DictVal d \<Rightarrow> ''coda'' \<in> dom d \<and> ''onset'' \<in> dom d | _ \<Rightarrow> False))"

definition shape_mismatch :: "counter_map \<Rightarrow> FDPoint \<Rightarrow> bool" where
  "shape_mismatch m p =
     (case m (letter p) of None \<Rightarrow> False | Some val \<Rightarrow> \<not> fits_letter (letter p) val)"

definition all_points :: "FD \<Rightarrow> FDPoint list" where
  "all_points fd = map snd (points (fd_plus fd)) @ map snd (points (fd_minus fd))"

text \<open>
  What \<open>count_in_map\<close> may change: nothing but the counts of the points whose letter is a
  key of the map. Names, polarities, keys, their order and the letters stay.
\<close>

definition point_frame :: "counter_map \<Rightarrow> FDPoint \<Rightarrow> FDPoint \<Rightarrow> bool" where
  "point_frame m p p' = (letter p' = letter p \<and> (letter p \<notin> dom m \<longrightarrow> p' = p))"

definition type_frame :: "counter_map \<Rightarrow> FDType \<Rightarrow> FDType \<Rightarrow> bool" where
  "type_frame m t t' =
     (ftype t' = ftype t \<and> map fst (points t') = map fst (points t) \<and>
      list_all2 (point_frame m) (map snd (points t)) (map snd (points t')))"

definition fd_frame :: "counter_map \<Rightarrow> FD \<Rightarrow> FD \<Rightarrow> bool" where
  "fd_frame m fd fd' =
     (fd_name fd' = fd_name fd \<and> type_frame m (fd_plus fd) (fd_plus fd') \<and>
      type_frame m (fd_minus fd) (fd_minus fd'))"

section \<open>Matching\<close>

lemmas split_eval =
  split_char_def split_loop.simps patterns_def gab_kons_def v_pattern_def char_class_def
  re_match_def

lemmas search_eval = decompose_def re_search_def re_match_def re_vocab_def char_class_def

lemma re_match_Some: "re_match alts w = Some m \<Longrightarrow> m \<in> set alts \<and> prefix m w"
  by (auto simp: re_match_def find_Some_iff)

lemma re_match_None: "re_match alts w = None \<longleftrightarrow> (\<forall>a\<in>set alts. \<not> prefix a w)"
  by (auto simp: re_match_def find_None_iff)

lemma prefix_cut: "prefix m w \<Longrightarrow> m @ drop (length m) w = w"
  by (auto simp: prefix_def)

lemma set_gab_kons: "set gab_kons = set cons"
  by (simp add: gab_kons_def cons_def char_class_def)

lemma set_v_pattern: "set v_pattern \<subseteq> set vocabs"
  by (simp add: v_pattern_def vocabs_def char_class_def)

lemma set_re_vocab: "set re_vocab = set vocabs"
  by (simp add: re_vocab_def vocabs_def char_class_def)

lemma cons_not_vocabs: "m \<in> set cons \<Longrightarrow> m \<notin> set vocabs"
  by (auto simp: cons_def vocabs_def)

lemma vocabs_not_cons: "m \<in> set vocabs \<Longrightarrow> m \<notin> set cons"
  using cons_not_vocabs by blast

lemma cons_nonempty: "[] \<notin> set cons"
  by (simp add: cons_def)

lemma vocabs_nonempty: "[] \<notin> set vocabs"
  by (simp add: vocabs_def)

lemma well_classed_nonempty: "well_classed u \<Longrightarrow> fst u \<noteq> []"
  using cons_nonempty vocabs_nonempty by (auto simp: well_classed_def)

lemma alphabet_cases: "c \<in> set alphabet \<Longrightarrow> [c] \<in> set gab_kons \<or> [c] \<in> set v_pattern"
  by (auto simp add: alphabet_def cons_def vocabs_def gab_kons_def v_pattern_def char_class_def)

lemma gab_kons_alphabet: "a \<in> set gab_kons \<Longrightarrow> set a \<subseteq> set alphabet"
  by (auto simp add: alphabet_def cons_def vocabs_def gab_kons_def char_class_def)

lemma v_pattern_alphabet: "a \<in> set v_pattern \<Longrightarrow> set a \<subseteq> set alphabet"
  by (auto simp add: alphabet_def cons_def vocabs_def v_pattern_def char_class_def)

lemma patterns_alphabet: "\<forall>p\<in>set patterns. \<forall>a\<in>set (fst p). set a \<subseteq> set alphabet"
  using gab_kons_alphabet v_pattern_alphabet by (simp add: patterns_def)

lemma graphemes_alphabet:
  assumes "set gs \<subseteq> set cons \<union> set vocabs"
  shows "set (concat gs) \<subseteq> set alphabet"
proof
  fix c assume "c \<in> set (concat gs)"
  then obtain g where g: "g \<in> set gs" "c \<in> set g"
    by auto
  with assms have "g \<in> set (cons @ vocabs)"
    by auto
  with g(2) show "c \<in> set alphabet"
    unfolding alphabet_def set_concat by blast
qed

lemma vowel_not_consonant:
  assumes "re_match v_pattern w = Some m"
  shows "re_match gab_kons w = None"
proof -
  from assms have "m \<in> set v_pattern" "prefix m w"
    using re_match_Some by blast+
  then obtain c cs where "w = c # cs" "c \<in> set ''aiueo''"
    by (auto simp: v_pattern_def char_class_def prefix_def)
  then show ?thesis
    by (auto simp: re_match_None gab_kons_def char_class_def)
qed

section \<open>One round of the loop of split\_char\<close>

text \<open>
  On a text that starts with a letter of the tables, one pass over \<open>patterns\<close> cuts one
  or two units off the front, each of the right class.
\<close>

lemma try_patterns_step:
  assumes "w \<noteq> []" and "hd w \<in> set alphabet"
  shows "\<exists>us w'. try_patterns patterns w r = (w', r @ us) \<and> us \<noteq> [] \<and>
           concat (map fst us) @ w' = w \<and> (\<forall>u\<in>set us. well_classed u)"
proof (cases "re_match gab_kons w")
  case (Some m)
  then have m: "m \<in> set cons" "m \<notin> set vocabs" "prefix m w"
    using re_match_Some [of gab_kons w m] set_gab_kons cons_not_vocabs by auto
  then have w: "m @ drop (length m) w = w"
    by (simp add: prefix_cut)
  show ?thesis
  proof (cases "re_match v_pattern (drop (length m) w)")
    case None
    with Some m w show ?thesis
      by (intro exI [of _ "[(m, ''konsonan'')]"] exI [of _ "drop (length m) w"])
        (simp add: patterns_def well_classed_def)
  next
    case s2: (Some m2)
    then have m2: "m2 \<in> set vocabs" "m2 \<notin> set cons" "prefix m2 (drop (length m) w)"
      using re_match_Some [of v_pattern "drop (length m) w" m2] set_v_pattern vocabs_not_cons
      by auto
    then have "m2 @ drop (length m2) (drop (length m) w) = drop (length m) w"
      by (rule_tac prefix_cut)
    with w have "m @ m2 @ drop (length m2) (drop (length m) w) = w"
      by simp
    with s2 Some m m2 show ?thesis
      by (intro exI [of _ "[(m, ''konsonan''), (m2, ''vocal'')]"]
          exI [of _ "drop (length m2) (drop (length m) w)"])
        (simp add: patterns_def well_classed_def)
  qed
next
  case None
  from assms obtain c w0 where cw: "w = c # w0" "c \<in> set alphabet"
    by (cases w) auto
  then have pre: "prefix [c] w"
    by simp
  with None have "[c] \<notin> set gab_kons"
    unfolding re_match_None by blast
  with cw have "[c] \<in> set v_pattern"
    using alphabet_cases by blast
  with pre have "re_match v_pattern w \<noteq> None"
    unfolding re_match_None by blast
  then obtain m2 where s2: "re_match v_pattern w = Some m2"
    by auto
  then have m2: "m2 \<in> set vocabs" "m2 \<notin> set cons" "prefix m2 w"
    using re_match_Some [of v_pattern w m2] set_v_pattern vocabs_not_cons by auto
  then have "m2 @ drop (length m2) w = w"
    by (simp add: prefix_cut)
  with None s2 m2 show ?thesis
    by (intro exI [of _ "[(m2, ''vocal'')]"] exI [of _ "drop (length m2) w"])
      (simp add: patterns_def well_classed_def)
qed

text \<open>A character outside the tables is never cut off.\<close>

lemma try_patterns_keeps:
  assumes "\<forall>p\<in>set ps. \<forall>a\<in>set (fst p). set a \<subseteq> set alphabet"
    and "c \<in> set w" and "c \<notin> set alphabet"
  shows "c \<in> set (fst (try_patterns ps w r))"
  using assms
proof (induction ps w r rule: try_patterns.induct)
  case (1 word result)
  then show ?case by simp
next
  case (2 pattern tag ps word result)
  show ?case
  proof (cases "re_match pattern word")
    case None
    with 2 show ?thesis by simp
  next
    case (Some m)
    then have "m \<in> set pattern" "m @ drop (length m) word = word"
      using re_match_Some [of pattern word m] prefix_cut by auto
    with "2.prems" have "c \<notin> set m" "c \<in> set m \<union> set (drop (length m) word)"
      by (auto simp flip: set_append)
    then have "c \<in> set (drop (length m) word)"
      by blast
    with 2 Some show ?thesis by simp
  qed
qed

text \<open>Each unit that one pass appends is the unit at the front of the text at that point.\<close>

lemma unit_path_append:
  "unit_path w us w' \<Longrightarrow> unit_path w' vs w'' \<Longrightarrow> unit_path w (us @ vs) w''"
  by (induction us arbitrary: w) auto

lemma try_patterns_path:
  "\<exists>us. try_patterns patterns w r = (fst (try_patterns patterns w r), r @ us) \<and>
        unit_path w us (fst (try_patterns patterns w r))"
proof (cases "re_match gab_kons w")
  case None
  show ?thesis
  proof (cases "re_match v_pattern w")
    case n2: None
    with None show ?thesis
      by (intro exI [of _ "[]"]) (simp add: patterns_def)
  next
    case (Some m2)
    with None show ?thesis
      by (intro exI [of _ "[(m2, ''vocal'')]"]) (simp add: patterns_def first_unit_def)
  qed
next
  case (Some m)
  show ?thesis
  proof (cases "re_match v_pattern (drop (length m) w)")
    case None
    with Some show ?thesis
      by (intro exI [of _ "[(m, ''konsonan'')]"]) (simp add: patterns_def first_unit_def)
  next
    case s2: (Some m2)
    with Some vowel_not_consonant [OF s2] show ?thesis
      by (intro exI [of _ "[(m, ''konsonan''), (m2, ''vocal'')]"])
        (simp add: patterns_def first_unit_def)
  qed
qed

lemma first_unit_digraph:
  assumes "d \<in> set digraphs" and "prefix d w"
  shows "first_unit w = Some (d, ''konsonan'')"
proof -
  from assms(2) obtain rest where w: "w = d @ rest"
    by (auto simp: prefix_def)
  from assms(1) consider "d = ''kh''" | "d = ''ng''" | "d = ''ny''" | "d = ''sy''"
    by (auto simp: digraphs_def)
  then show ?thesis
    by cases (simp_all add: w first_unit_def re_match_def gab_kons_def char_class_def)
qed

lemma first_unit_vowel:
  assumes "v \<in> set vowel_letters"
  shows "first_unit (v # w) = Some ([v], ''vocal'')"
proof -
  from assms consider "v = CHR ''a''" | "v = CHR ''i''" | "v = CHR ''u''" | "v = CHR ''e''"
    | "v = CHR ''o''"
    by (auto simp: vowel_letters_def)
  then show ?thesis
    by cases
      (simp_all add: first_unit_def re_match_def gab_kons_def v_pattern_def char_class_def)
qed

section \<open>The loop of split\_char\<close>

text \<open>On a text made of letters of the tables the loop ends, with the units of the text.\<close>

lemma split_loop_recognised:
  "set w \<subseteq> set alphabet \<Longrightarrow>
   \<exists>us. split_loop w r = Some (r @ us) \<and> concat (map fst us) = w \<and>
        (\<forall>u\<in>set us. well_classed u)"
proof (induction w arbitrary: r rule: length_induct)
  case (1 w)
  show ?case
  proof (cases "w = []")
    case True
    then show ?thesis
      by (simp add: split_loop.simps)
  next
    case False
    with "1.prems" have "hd w \<in> set alphabet"
      by (cases w) auto
    from try_patterns_step [OF False this, of r]
    obtain us w' where step: "try_patterns patterns w r = (w', r @ us)" "us \<noteq> []"
      "concat (map fst us) @ w' = w" "\<forall>u\<in>set us. well_classed u"
      by blast
    from step(2,4) have "concat (map fst us) \<noteq> []"
      using well_classed_nonempty by (cases us) auto
    with step(3) have shorter: "length w' < length w"
      by (metis append_eq_conv_conj length_drop diff_less length_greater_0_conv False)
    from step(3) "1.prems" have "set w' \<subseteq> set alphabet"
      by auto
    with "1.IH" shorter obtain vs where rest: "split_loop w' (r @ us) = Some ((r @ us) @ vs)"
      "concat (map fst vs) = w'" "\<forall>u\<in>set vs. well_classed u"
      by blast
    from False step(1) rest(1) have "split_loop w r = Some (r @ (us @ vs))"
      by (subst split_loop.simps) simp
    moreover from step(3) rest(2) have "concat (map fst (us @ vs)) = w"
      by simp
    moreover from step(4) rest(3) have "\<forall>u\<in>set (us @ vs). well_classed u"
      by auto
    ultimately show ?thesis
      by blast
  qed
qed

text \<open>
  The loop returns on no other text: a character outside the tables stays in \<open>word\<close>
  round after round, so \<open>word\<close> never becomes empty.
\<close>

lemma split_loop_returns_recognised:
  assumes "split_loop w r = Some y"
  shows "set w \<subseteq> set alphabet"
proof (rule split_loop.raw_induct [where P = "\<lambda>w r y. set w \<subseteq> set alphabet", OF _ assms])
  fix f :: "string \<Rightarrow> (string \<times> string) list \<Rightarrow> (string \<times> string) list option"
  fix word result y
  assume IH: "\<And>w r y. f w r = Some y \<Longrightarrow> set w \<subseteq> set alphabet"
  assume body: "(if word = [] then Some result
      else case try_patterns patterns word result of (word', result') \<Rightarrow> f word' result') = Some y"
  show "set word \<subseteq> set alphabet"
  proof (cases "word = []")
    case True
    then show ?thesis by simp
  next
    case False
    obtain w' r' where step: "try_patterns patterns word result = (w', r')"
      by (cases "try_patterns patterns word result")
    with False body have "f w' r' = Some y"
      by simp
    then have rest: "set w' \<subseteq> set alphabet"
      by (rule IH)
    show ?thesis
    proof
      fix c assume "c \<in> set word"
      show "c \<in> set alphabet"
      proof (rule ccontr)
        assume "c \<notin> set alphabet"
        with \<open>c \<in> set word\<close> have "c \<in> set (fst (try_patterns patterns word result))"
          using try_patterns_keeps [OF patterns_alphabet] by blast
        with step rest \<open>c \<notin> set alphabet\<close> show False
          by auto
      qed
    qed
  qed
qed

lemma split_loop_unrecognised: "\<not> set w \<subseteq> set alphabet \<Longrightarrow> split_loop w r = None"
  using split_loop_returns_recognised [of w r] by (cases "split_loop w r") auto

text \<open>Whatever the loop returns is the accumulator followed by a chain of units.\<close>

lemma split_loop_chain:
  assumes "split_loop w r = Some y"
  shows "\<exists>us. y = r @ us \<and> unit_chain w us"
proof (rule split_loop.raw_induct
    [where P = "\<lambda>w r y. \<exists>us. y = r @ us \<and> unit_chain w us", OF _ assms])
  fix f :: "string \<Rightarrow> (string \<times> string) list \<Rightarrow> (string \<times> string) list option"
  fix word result y
  assume IH: "\<And>w r y. f w r = Some y \<Longrightarrow> \<exists>us. y = r @ us \<and> unit_chain w us"
  assume body: "(if word = [] then Some result
      else case try_patterns patterns word result of (word', result') \<Rightarrow> f word' result') = Some y"
  show "\<exists>us. y = result @ us \<and> unit_chain word us"
  proof (cases "word = []")
    case True
    with body show ?thesis by (simp add: unit_chain_def)
  next
    case False
    from try_patterns_path [of word result] obtain us1 w'
      where step: "try_patterns patterns word result = (w', result @ us1)"
        and path: "unit_path word us1 w'"
      by blast
    with False body have "f w' (result @ us1) = Some y"
      by simp
    from IH [OF this] obtain us2 where "y = (result @ us1) @ us2" "unit_chain w' us2"
      by blast
    with path show ?thesis
      using unit_path_append by (intro exI [of _ "us1 @ us2"]) (simp add: unit_chain_def)
  qed
qed


section \<open>Claims on split\_char\<close>

lemma split_char_nga_eval:
  "split_char ''nga'' = Some [(''ng'', ''konsonan''), (''a'', ''vocal'')]"
  by (simp add: split_eval)

text \<open>
  C1, as the code has it. The text \<open>ai\<close> is split into the two vowel units \<open>a\<close> and
  \<open>i\<close>, not into one unit \<open>ai\<close>: \<open>v_pattern\<close> is \<open>^[aiueo]\<close> and holds no diphthong.
\<close>

theorem split_char_ai_counterexample:
  "split_char ''ai'' = Some [(''a'', ''vocal''), (''i'', ''vocal'')] \<and>
   split_char ''ai'' \<noteq> Some [(''ai'', ''vocal'')]"
  by (simp add: split_eval)

text \<open>
  C1, amended. Whatever \<open>split_char\<close> returns is a chain of units, each the first match
  at its position with the patterns tried in the fixed order \<open>kh\<close>, \<open>ng\<close>, \<open>ny\<close>, \<open>sy\<close>,
  the single consonants, the single vowels. So a digraph at the front of a text is
  taken as one consonant unit, never as two letters, and \<open>split_char\<close> of \<open>ng\<close> is the
  one unit \<open>ng\<close>; a vowel is always taken as a single letter, also where it starts a
  diphthong, and \<open>split_char\<close> of \<open>ai\<close> is the two units \<open>a\<close> and \<open>i\<close>.
\<close>

theorem split_char_priority:
  "(split_char s = Some us \<longrightarrow> unit_chain s us) \<and>
   (d \<in> set digraphs \<and> prefix d w \<longrightarrow> first_unit w = Some (d, ''konsonan'')) \<and>
   (v \<in> set vowel_letters \<longrightarrow> first_unit (v # w') = Some ([v], ''vocal'')) \<and>
   split_char ''ng'' = Some [(''ng'', ''konsonan'')] \<and>
   split_char ''ai'' = Some [(''a'', ''vocal''), (''i'', ''vocal'')]"
proof -
  have "unit_chain s us" if "split_char s = Some us"
    using split_loop_chain [of s "[]" us] that by (simp add: split_char_def)
  moreover have "split_char ''ng'' = Some [(''ng'', ''konsonan'')]"
    by (simp add: split_eval)
  moreover have "split_char ''ai'' = Some [(''a'', ''vocal''), (''i'', ''vocal'')]"
    by (simp add: split_eval)
  ultimately show ?thesis
    using first_unit_digraph [of d w] first_unit_vowel [of v w'] by blast
qed

theorem split_char_priority_witness:
  "split_char ''nga'' = Some [(''ng'', ''konsonan''), (''a'', ''vocal'')] \<and>
   unit_chain ''nga'' [(''ng'', ''konsonan''), (''a'', ''vocal'')] \<and>
   ''ng'' \<in> set digraphs \<and> prefix ''ng'' ''nga'' \<and>
   first_unit ''nga'' = Some (''ng'', ''konsonan'') \<and>
   CHR ''a'' \<in> set vowel_letters \<and> first_unit ''ai'' = Some (''a'', ''vocal'')"
  using split_char_priority [of "''nga''" "[(''ng'', ''konsonan''), (''a'', ''vocal'')]"
      "''ng''" "''nga''" "CHR ''a''" "''i''"] split_char_nga_eval
  by (simp add: digraphs_def vowel_letters_def)

text \<open>
  C2. The claim asks for an error on a text with a character outside both tables. The
  loop of \<open>split_char\<close> has no \<open>raise\<close>: on such a text no pattern ever matches at the
  character, \<open>word\<close> stays non-empty, and the function does not return.
\<close>

theorem split_char_unrecognised:
  "\<not> set s \<subseteq> set alphabet \<Longrightarrow> split_char s = None"
  by (simp add: split_char_def split_loop_unrecognised)

theorem split_char_unrecognised_witness:
  "\<not> set ''-'' \<subseteq> set alphabet \<and> split_char ''-'' = None"
proof -
  have h: "\<not> set ''-'' \<subseteq> set alphabet"
    by (simp add: alphabet_def cons_def vocabs_def)
  from split_char_unrecognised [OF h] h show ?thesis
    by simp
qed

text \<open>
  C5. On a text composed of graphemes of the two tables \<open>split_char\<close> returns; the texts
  of the units, put together in order, are the text, and every unit is tagged
  \<open>konsonan\<close> and in \<open>cons\<close> only, or tagged \<open>vocal\<close> and in \<open>vocabs\<close> only.
\<close>

theorem split_char_recognised:
  assumes "s = concat gs" and "set gs \<subseteq> set cons \<union> set vocabs"
  shows "\<exists>us. split_char s = Some us \<and> concat (map fst us) = s \<and>
              (\<forall>u\<in>set us. well_classed u)"
proof -
  from assms have "set s \<subseteq> set alphabet"
    using graphemes_alphabet by simp
  from split_loop_recognised [OF this, of "[]"] show ?thesis
    by (simp add: split_char_def)
qed

theorem split_char_recognised_witness:
  "''ngai'' = concat [''ng'', ''ai''] \<and> set [''ng'', ''ai''] \<subseteq> set cons \<union> set vocabs \<and>
   (\<exists>us. split_char ''ngai'' = Some us \<and> concat (map fst us) = ''ngai'' \<and>
         (\<forall>u\<in>set us. well_classed u))"
proof -
  have h1: "''ngai'' = concat [''ng'', ''ai'']"
    by simp
  have h2: "set [''ng'', ''ai''] \<subseteq> set cons \<union> set vocabs"
    by (simp add: cons_def vocabs_def)
  from split_char_recognised [OF h1 h2] h1 h2 show ?thesis
    by blast
qed


section \<open>The search for the nucleus\<close>

lemma re_vocab_None: "re_match re_vocab w = None \<longleftrightarrow> (w = [] \<or> hd w \<notin> set vowel_letters)"
proof (cases w)
  case Nil
  then show ?thesis
    by (simp add: re_match_None re_vocab_def char_class_def)
next
  case (Cons c cs)
  then show ?thesis
    by (auto simp add: re_match_None re_vocab_def char_class_def vowel_letters_def)
qed

lemma re_vocab_diphthong:
  assumes "re_match re_vocab w = Some m" and "d \<in> set diphthongs" and "prefix d w"
  shows "m = d"
proof -
  from assms(3) obtain rest where w: "w = d @ rest"
    by (auto simp: prefix_def)
  from assms(2) consider "d = ''ai''" | "d = ''au''" | "d = ''ei''" | "d = ''oi''"
    by (auto simp: diphthongs_def)
  then show ?thesis
    using assms(1) by cases (simp_all add: w re_match_def re_vocab_def char_class_def)
qed

text \<open>
  A span found by \<open>search_at\<close> starts at the leftmost position where the pattern
  matches, and \<open>search_at\<close> finds nothing only if the pattern matches at no position.
\<close>

lemma search_at_Some:
  "search_at alts i w = Some (a, b) \<Longrightarrow>
   i \<le> a \<and> a - i \<le> length w \<and>
   (\<exists>m. re_match alts (drop (a - i) w) = Some m \<and> b = a + length m) \<and>
   (\<forall>j<a - i. re_match alts (drop j w) = None)"
proof (induction alts i w rule: search_at.induct)
  case (1 alts i)
  then show ?case
    by (auto split: option.splits)
next
  case (2 alts i c w)
  show ?case
  proof (cases "re_match alts (c # w)")
    case (Some m)
    with "2.prems" show ?thesis by auto
  next
    case None
    with "2.prems" have rec: "search_at alts (Suc i) w = Some (a, b)"
      by simp
    from "2.IH" [OF None rec] have ih: "Suc i \<le> a" "a - Suc i \<le> length w"
      "\<exists>m. re_match alts (drop (a - Suc i) w) = Some m \<and> b = a + length m"
      "\<forall>j<a - Suc i. re_match alts (drop j w) = None"
      by auto
    from ih(1) have eq: "a - i = Suc (a - Suc i)"
      by simp
    have "\<forall>j<a - i. re_match alts (drop j (c # w)) = None"
    proof (intro allI impI)
      fix j assume "j < a - i"
      then show "re_match alts (drop j (c # w)) = None"
        using None ih(4) eq by (cases j) auto
    qed
    with ih eq show ?thesis
      by auto
  qed
qed

lemma search_at_None:
  "search_at alts i w = None \<longleftrightarrow> (\<forall>j\<le>length w. re_match alts (drop j w) = None)"
proof (induction alts i w rule: search_at.induct)
  case (1 alts i)
  then show ?case
    by (auto split: option.splits)
next
  case (2 alts i c w)
  show ?case
  proof (cases "re_match alts (c # w)")
    case (Some m)
    then show ?thesis by auto
  next
    case None
    have "(\<forall>j\<le>length (c # w). re_match alts (drop j (c # w)) = None) \<longleftrightarrow>
          (\<forall>j\<le>length w. re_match alts (drop j w) = None)"
    proof
      assume l: "\<forall>j\<le>length (c # w). re_match alts (drop j (c # w)) = None"
      show "\<forall>j\<le>length w. re_match alts (drop j w) = None"
      proof (intro allI impI)
        fix j assume "j \<le> length w"
        with l [rule_format, of "Suc j"] show "re_match alts (drop j w) = None"
          by simp
      qed
    next
      assume r: "\<forall>j\<le>length w. re_match alts (drop j w) = None"
      show "\<forall>j\<le>length (c # w). re_match alts (drop j (c # w)) = None"
      proof (intro allI impI)
        fix j assume "j \<le> length (c # w)"
        then show "re_match alts (drop j (c # w)) = None"
          using None r by (cases j) auto
      qed
    qed
    with None "2.IH" [OF None] show ?thesis
      by simp
  qed
qed

lemma decompose_None: "decompose tok = None \<longleftrightarrow> set tok \<inter> set vowel_letters = {}"
proof -
  have "decompose tok = None \<longleftrightarrow> search_at re_vocab 0 tok = None"
    by (auto simp add: decompose_def re_search_def split: option.splits)
  also have "\<dots> \<longleftrightarrow> (\<forall>j\<le>length tok. re_match re_vocab (drop j tok) = None)"
    by (rule search_at_None)
  also have "\<dots> \<longleftrightarrow> (\<forall>j<length tok. tok ! j \<notin> set vowel_letters)"
  proof
    assume l: "\<forall>j\<le>length tok. re_match re_vocab (drop j tok) = None"
    show "\<forall>j<length tok. tok ! j \<notin> set vowel_letters"
    proof (intro allI impI)
      fix j assume j: "j < length tok"
      with l have "re_match re_vocab (drop j tok) = None"
        by simp
      with j show "tok ! j \<notin> set vowel_letters"
        by (simp add: re_vocab_None hd_drop_conv_nth)
    qed
  next
    assume r: "\<forall>j<length tok. tok ! j \<notin> set vowel_letters"
    show "\<forall>j\<le>length tok. re_match re_vocab (drop j tok) = None"
    proof (intro allI impI)
      fix j assume "j \<le> length tok"
      then show "re_match re_vocab (drop j tok) = None"
        using r by (cases "j < length tok") (simp_all add: re_vocab_None hd_drop_conv_nth)
    qed
  qed
  also have "\<dots> \<longleftrightarrow> (\<forall>x\<in>set tok. x \<notin> set vowel_letters)"
    by (simp add: all_set_conv_all_nth)
  also have "\<dots> \<longleftrightarrow> set tok \<inter> set vowel_letters = {}"
    by blast
  finally show ?thesis .
qed

lemma decompose_Some:
  assumes "decompose tok = Some t"
  shows "tok_token t = tok"
    and "tok_onset t @ tok_nucleus t @ tok_coda t = tok"
    and "re_match re_vocab (tok_nucleus t @ tok_coda t) = Some (tok_nucleus t)"
    and "set (tok_onset t) \<inter> set vowel_letters = {}"
proof -
  from assms obtain a b where sp: "search_at re_vocab 0 tok = Some (a, b)"
    and t: "t = \<lparr>tok_token = tok, tok_nucleus = drop a (take b tok),
                 tok_onset = take a tok, tok_coda = drop b tok\<rparr>"
    by (auto simp: decompose_def re_search_def split: option.splits)
  from search_at_Some [OF sp] obtain m where a: "a \<le> length tok"
    and m: "re_match re_vocab (drop a tok) = Some m" "b = a + length m"
    and before: "\<forall>j<a. re_match re_vocab (drop j tok) = None"
    by auto
  from m(1) have pre: "m @ drop (length m) (drop a tok) = drop a tok"
    using re_match_Some prefix_cut by blast
  then have takem: "take (length m) (drop a tok) = m"
    by (metis append_eq_conv_conj)
  have nuc: "drop a (take b tok) = m"
    using takem m(2) by (simp add: drop_take)
  have coda: "drop b tok = drop (length m) (drop a tok)"
    using m(2) by (simp add: add.commute)
  show "tok_token t = tok"
    by (simp add: t)
  show "tok_onset t @ tok_nucleus t @ tok_coda t = tok"
    using pre by (simp add: t nuc coda)
  show "re_match re_vocab (tok_nucleus t @ tok_coda t) = Some (tok_nucleus t)"
    using pre m(1) by (simp add: t nuc coda)
  show "set (tok_onset t) \<inter> set vowel_letters = {}"
  proof -
    have out: "tok ! j \<notin> set vowel_letters" if "j < a" for j
    proof -
      from that before have "re_match re_vocab (drop j tok) = None"
        by simp
      with that a show ?thesis
        by (simp add: re_vocab_None hd_drop_conv_nth)
    qed
    have "x \<notin> set vowel_letters" if "x \<in> set (take a tok)" for x
    proof -
      from that obtain i where "i < length (take a tok)" "take a tok ! i = x"
        unfolding in_set_conv_nth by blast
      then have "i < a" "x = tok ! i"
        by simp_all
      with out show ?thesis
        by simp
    qed
    then show ?thesis
      by (auto simp add: t)
  qed
qed

lemma decompose_nucleus:
  assumes "decompose tok = Some t"
  shows "tok_nucleus t \<in> set vocabs" and "tok_nucleus t \<noteq> []"
proof -
  from decompose_Some(3) [OF assms] show "tok_nucleus t \<in> set vocabs"
    using re_match_Some set_re_vocab by blast
  then show "tok_nucleus t \<noteq> []"
    using vocabs_nonempty by auto
qed

lemma set_parse_loop:
  "set (parse_loop toks acc) = set acc \<union> {t. \<exists>tok\<in>set toks. decompose tok = Some t}"
  by (induction toks arbitrary: acc) (auto split: option.splits)

section \<open>Claims on the decomposition of a token\<close>

text \<open>
  C6. The loop body of \<open>parse_token\<close> takes the leftmost vowel match as nucleus: no
  vowel letter stands in the onset. At that position a diphthong wins over its first
  letter: if the text from the nucleus on starts with a diphthong, the nucleus is that
  diphthong. No token is produced exactly when the text holds no vowel letter. The text
  \<open>trak\<close> gives onset \<open>tr\<close>, nucleus \<open>a\<close>, coda \<open>k\<close>, and \<open>xyz\<close> gives nothing.
\<close>

theorem decompose_first_vowel:
  "(decompose tok = None \<longleftrightarrow> set tok \<inter> set vowel_letters = {}) \<and>
   (decompose tok = Some t \<longrightarrow>
      tok_onset t @ tok_nucleus t @ tok_coda t = tok \<and>
      set (tok_onset t) \<inter> set vowel_letters = {} \<and>
      tok_nucleus t \<in> set vocabs \<and>
      (\<forall>d\<in>set diphthongs. prefix d (tok_nucleus t @ tok_coda t) \<longrightarrow> tok_nucleus t = d)) \<and>
   decompose ''trak'' =
     Some \<lparr>tok_token = ''trak'', tok_nucleus = ''a'', tok_onset = ''tr'', tok_coda = ''k''\<rparr> \<and>
   decompose ''xyz'' = None"
proof -
  have "\<forall>d\<in>set diphthongs. prefix d (tok_nucleus t @ tok_coda t) \<longrightarrow> tok_nucleus t = d"
    if "decompose tok = Some t"
    using decompose_Some(3) [OF that] re_vocab_diphthong by blast
  moreover have "decompose ''trak'' =
     Some \<lparr>tok_token = ''trak'', tok_nucleus = ''a'', tok_onset = ''tr'', tok_coda = ''k''\<rparr>"
    by (simp add: search_eval)
  moreover have "decompose ''xyz'' = None"
    by (simp add: search_eval)
  ultimately show ?thesis
    using decompose_None [of tok] decompose_Some(2,4) [of tok t] decompose_nucleus(1) [of tok t]
    by blast
qed

theorem decompose_first_vowel_witness:
  "decompose ''baik'' =
     Some \<lparr>tok_token = ''baik'', tok_nucleus = ''ai'', tok_onset = ''b'', tok_coda = ''k''\<rparr> \<and>
   set ''baik'' \<inter> set vowel_letters \<noteq> {} \<and>
   set ''b'' \<inter> set vowel_letters = {} \<and> ''ai'' \<in> set diphthongs \<and>
   prefix ''ai'' (''ai'' @ ''k'') \<and> ''ai'' \<in> set vocabs"
proof -
  have h: "decompose ''baik'' =
     Some \<lparr>tok_token = ''baik'', tok_nucleus = ''ai'', tok_onset = ''b'', tok_coda = ''k''\<rparr>"
    by (simp add: search_eval)
  from decompose_first_vowel [of "''baik''"
      "\<lparr>tok_token = ''baik'', tok_nucleus = ''ai'', tok_onset = ''b'', tok_coda = ''k''\<rparr>"] h
  show ?thesis
    by (simp add: diphthongs_def vowel_letters_def)
qed

text \<open>
  C7. Every token that \<open>parse_token\<close> puts in its result satisfies
  \<open>onset + nucleus + coda == token\<close>, the token being one of the texts the parser gave;
  its nucleus is not empty and is an entry of \<open>vocabs\<close>. Onset and coda may both be
  empty, as for the token \<open>a\<close>.
\<close>

theorem syllable_invariant:
  "(t \<in> set (pw_tokens (parse_token parse word)) \<longrightarrow>
      tok_onset t @ tok_nucleus t @ tok_coda t = tok_token t \<and>
      tok_token t \<in> set (parse word) \<and>
      tok_nucleus t \<noteq> [] \<and> tok_nucleus t \<in> set vocabs) \<and>
   decompose ''a'' =
     Some \<lparr>tok_token = ''a'', tok_nucleus = ''a'', tok_onset = [], tok_coda = []\<rparr>"
proof -
  have "tok_onset t @ tok_nucleus t @ tok_coda t = tok_token t \<and>
      tok_token t \<in> set (parse word) \<and>
      tok_nucleus t \<noteq> [] \<and> tok_nucleus t \<in> set vocabs"
    if "t \<in> set (pw_tokens (parse_token parse word))"
  proof -
    from that obtain tok where tok: "tok \<in> set (parse word)" "decompose tok = Some t"
      by (auto simp: parse_token_def set_parse_loop)
    from decompose_Some(1,2) [OF tok(2)] decompose_nucleus [OF tok(2)] tok(1)
    show ?thesis
      by simp
  qed
  moreover have "decompose ''a'' =
     Some \<lparr>tok_token = ''a'', tok_nucleus = ''a'', tok_onset = [], tok_coda = []\<rparr>"
    by (simp add: search_eval)
  ultimately show ?thesis
    by blast
qed

theorem syllable_invariant_witness:
  "\<lparr>tok_token = ''ban'', tok_nucleus = ''a'', tok_onset = ''b'', tok_coda = ''n''\<rparr>
     \<in> set (pw_tokens (parse_token (\<lambda>w. [w]) ''ban'')) \<and>
   ''b'' @ ''a'' @ ''n'' = ''ban'' \<and> ''a'' \<noteq> [] \<and> ''a'' \<in> set vocabs"
proof -
  have h: "\<lparr>tok_token = ''ban'', tok_nucleus = ''a'', tok_onset = ''b'', tok_coda = ''n''\<rparr>
     \<in> set (pw_tokens (parse_token (\<lambda>w. [w]) ''ban''))"
    by (simp add: parse_token_def search_eval)
  from syllable_invariant
    [of "\<lparr>tok_token = ''ban'', tok_nucleus = ''a'', tok_onset = ''b'', tok_coda = ''n''\<rparr>"
      "\<lambda>w. [w]" "''ban''"] h
  show ?thesis
    by simp
qed


section \<open>The counters\<close>

lemma dom_kons_counters_init: "dom kons_counters_init = set cons"
  by (simp add: kons_counters_init_def dom_map_of_conv_image_fst image_image)

lemma dom_vocab_counters_init: "dom vocab_counters_init = set vocabs"
  by (simp add: vocab_counters_init_def dom_map_of_conv_image_fst image_image)

lemma dom_hit_onset: "dom (hit_onset c k) = dom k"
  by (auto simp: hit_onset_def split: option.splits)

lemma dom_hit_coda: "dom (hit_coda c k) = dom k"
  by (auto simp: hit_coda_def split: option.splits)

lemma tracked_hit_onset: "tracked (hit_onset c k) = tracked k"
  by (simp add: tracked_def fun_eq_iff dom_hit_onset)

lemma tracked_hit_coda: "tracked (hit_coda c k) = tracked k"
  by (simp add: tracked_def fun_eq_iff dom_hit_coda)

lemma tracked_fold_onset: "tracked (fold hit_onset cs k) = tracked k"
  by (induction cs arbitrary: k) (simp_all add: tracked_hit_onset)

text \<open>
  The two loops of the \<open>try\<close> block in closed form: all increments when every unit is a
  key, otherwise \<open>KeyError\<close> at the first unit that is not, with the increments of the
  units before it.
\<close>

lemma count_onset_char:
  "count_onset us k =
     (if list_all (tracked k) us then Completed (fold hit_onset (map fst us) k)
      else Raised (KeyError (fst (hd (dropWhile (tracked k) us))))
             (fold hit_onset (map fst (takeWhile (tracked k) us)) k))"
proof (induction us arbitrary: k)
  case Nil
  show ?case by simp
next
  case (Cons u us)
  obtain c t where u: "u = (c, t)" by (cases u)
  show ?case
  proof (cases "k c")
    case None
    then show ?thesis
      by (simp add: u tracked_def domIff)
  next
    case (Some e)
    then have step: "k(c \<mapsto> e\<lparr>cnt_onset := cnt_onset e + 1\<rparr>) = hit_onset c k"
      by (simp add: hit_onset_def)
    from Some have "tracked k u"
      by (simp add: u tracked_def domIff)
    with Some show ?thesis
      by (simp add: u step Cons.IH tracked_hit_onset)
  qed
qed

lemma count_coda_char:
  "count_coda us k =
     (if list_all (tracked k) us then Completed (fold hit_coda (map fst us) k)
      else Raised (KeyError (fst (hd (dropWhile (tracked k) us))))
             (fold hit_coda (map fst (takeWhile (tracked k) us)) k))"
proof (induction us arbitrary: k)
  case Nil
  show ?case by simp
next
  case (Cons u us)
  obtain c t where u: "u = (c, t)" by (cases u)
  show ?case
  proof (cases "k c")
    case None
    then show ?thesis
      by (simp add: u tracked_def domIff)
  next
    case (Some e)
    then have step: "k(c \<mapsto> e\<lparr>cnt_coda := cnt_coda e + 1\<rparr>) = hit_coda c k"
      by (simp add: hit_coda_def)
    from Some have "tracked k u"
      by (simp add: u tracked_def domIff)
    with Some show ?thesis
      by (simp add: u step Cons.IH tracked_hit_coda)
  qed
qed

lemma split_char_b_eval: "split_char ''b'' = Some [(''b'', ''konsonan'')]"
  by (simp add: split_eval)

lemma split_char_n_eval: "split_char ''n'' = Some [(''n'', ''konsonan'')]"
  by (simp add: split_eval)

lemma split_char_a_eval: "split_char ''a'' = Some [(''a'', ''vocal'')]"
  by (simp add: split_eval)

lemma split_char_empty_eval: "split_char [] = Some []"
  by (simp add: split_eval)

lemma kons_counters_init_b: "kons_counters_init ''b'' = Some \<lparr>cnt_onset = 0, cnt_coda = 0\<rparr>"
  by (simp add: kons_counters_init_def cons_def)

lemma kons_counters_init_n: "kons_counters_init ''n'' = Some \<lparr>cnt_onset = 0, cnt_coda = 0\<rparr>"
  by (simp add: kons_counters_init_def cons_def)

lemma kons_counters_init_a: "kons_counters_init ''a'' = None"
  by (simp add: kons_counters_init_def cons_def)

lemma vocab_counters_init_a: "vocab_counters_init ''a'' = Some 0"
  by (simp add: vocab_counters_init_def vocabs_def)

lemma tokenize_ba_ban:
  "tokenize (\<lambda>w. [w]) [''ba'', ''ban''] =
    [\<lparr>pw_word = ''ba'', pw_tokens =
        [\<lparr>tok_token = ''ba'', tok_nucleus = ''a'', tok_onset = ''b'', tok_coda = ''''\<rparr>]\<rparr>,
     \<lparr>pw_word = ''ban'', pw_tokens =
        [\<lparr>tok_token = ''ban'', tok_nucleus = ''a'', tok_onset = ''b'', tok_coda = ''n''\<rparr>]\<rparr>]"
  by (simp add: tokenize_def parse_token_def search_eval)

lemma count_data_ba_ban:
  "count_data (tokenize (\<lambda>w. [w]) [''ba'', ''ban''])
     (vocab_counters_init, kons_counters_init) =
   Some (vocab_counters_init(''a'' \<mapsto> 2),
         kons_counters_init(''b'' \<mapsto> \<lparr>cnt_onset = 2, cnt_coda = 0\<rparr>,
                            ''n'' \<mapsto> \<lparr>cnt_onset = 0, cnt_coda = 1\<rparr>))"
  by (simp add: tokenize_ba_ban count_token_def count_try_def split_char_b_eval
      split_char_n_eval split_char_empty_eval kons_counters_init_b kons_counters_init_n
      vocab_counters_init_a)

lemma count_try_baia:
  "count_try \<lparr>tok_token = ''baia'', tok_nucleus = ''ai'', tok_onset = ''b'', tok_coda = ''a''\<rparr>
     (vocab_counters_init, kons_counters_init) =
   Some (Raised (KeyError ''a'')
     (vocab_counters_init, kons_counters_init(''b'' \<mapsto> \<lparr>cnt_onset = 1, cnt_coda = 0\<rparr>)))"
  by (simp add: count_try_def split_char_b_eval split_char_a_eval kons_counters_init_b
      kons_counters_init_a)

section \<open>Claims on count\_syllables\<close>

text \<open>
  C3, as the code has it. The token \<open>baia\<close>, which \<open>parse_token\<close> splits into onset
  \<open>b\<close>, nucleus \<open>ai\<close> and coda \<open>a\<close>, fails at the coda with \<open>KeyError\<close>, and the
  increment of the onset count of \<open>b\<close> done before stays: the counters after the
  token are not the counters before it.
\<close>

theorem count_token_not_atomic_counterexample:
  "decompose ''baia'' =
     Some \<lparr>tok_token = ''baia'', tok_nucleus = ''ai'', tok_onset = ''b'', tok_coda = ''a''\<rparr> \<and>
   count_try \<lparr>tok_token = ''baia'', tok_nucleus = ''ai'', tok_onset = ''b'', tok_coda = ''a''\<rparr>
     (vocab_counters_init, kons_counters_init) =
   Some (Raised (KeyError ''a'')
     (vocab_counters_init, kons_counters_init(''b'' \<mapsto> \<lparr>cnt_onset = 1, cnt_coda = 0\<rparr>))) \<and>
   count_token \<lparr>tok_token = ''baia'', tok_nucleus = ''ai'', tok_onset = ''b'', tok_coda = ''a''\<rparr>
     (vocab_counters_init, kons_counters_init) \<noteq>
   Some (vocab_counters_init, kons_counters_init)"
proof -
  have "(kons_counters_init(''b'' \<mapsto> \<lparr>cnt_onset = 1, cnt_coda = 0\<rparr>)) ''b'' \<noteq>
        kons_counters_init ''b''"
    by (simp add: kons_counters_init_b)
  then have "kons_counters_init(''b'' \<mapsto> \<lparr>cnt_onset = 1, cnt_coda = 0\<rparr>) \<noteq> kons_counters_init"
    by metis
  moreover have "decompose ''baia'' =
     Some \<lparr>tok_token = ''baia'', tok_nucleus = ''ai'', tok_onset = ''b'', tok_coda = ''a''\<rparr>"
    by (simp add: search_eval)
  ultimately show ?thesis
    by (simp add: count_token_def count_try_baia)
qed

text \<open>
  C3, amended. When the \<open>try\<close> block of a token raises, the vowel counts are as before
  the token and the consonant counts hold the increments done before the failing
  lookup, no more and no less: the onset units up to the first one that is not a
  tracked consonant; or, all onset units being tracked, every onset increment and the
  coda units up to the first untracked one; or, all units being tracked and the nucleus
  no tracked vowel, every onset and coda increment. The loop goes on with the next
  token from these counters.
\<close>

theorem count_try_failure:
  assumes "count_try token (v, k) = Some (Raised e (v', k'))"
  shows "v' = v \<and> count_token token (v, k) = Some (v, k') \<and>
    count_tokens (token # rest) (v, k) = count_tokens rest (v, k') \<and>
    (\<exists>ons. split_char (tok_onset token) = Some ons \<and>
       (if \<not> list_all (tracked k) ons
        then k' = fold hit_onset (map fst (takeWhile (tracked k) ons)) k
        else \<exists>cds. split_char (tok_coda token) = Some cds \<and>
            (if \<not> list_all (tracked k) cds
             then k' = fold hit_coda (map fst (takeWhile (tracked k) cds))
                         (fold hit_onset (map fst ons) k)
             else tok_nucleus token \<notin> dom v \<and>
                  k' = fold hit_coda (map fst cds) (fold hit_onset (map fst ons) k))))"
proof -
  from assms obtain ons where ons: "split_char (tok_onset token) = Some ons"
    by (auto simp: count_try_def split: option.splits)
  have tok: "count_token token (v, k) = Some (v', k')"
    using assms by (simp add: count_token_def)
  show ?thesis
  proof (cases "list_all (tracked k) ons")
    case False
    with assms ons have "v' = v" "k' = fold hit_onset (map fst (takeWhile (tracked k) ons)) k"
      by (simp_all add: count_try_def count_onset_char)
    with tok ons False show ?thesis
      by simp
  next
    case True
    define k1 where "k1 = fold hit_onset (map fst ons) k"
    have on: "count_onset ons k = Completed k1"
      using True by (simp add: count_onset_char k1_def)
    have tr: "tracked k1 = tracked k"
      by (simp add: k1_def tracked_fold_onset)
    from assms ons on obtain cds where cds: "split_char (tok_coda token) = Some cds"
      by (auto simp: count_try_def split: option.splits)
    show ?thesis
    proof (cases "list_all (tracked k) cds")
      case False
      with assms ons on cds tr
      have "v' = v" "k' = fold hit_coda (map fst (takeWhile (tracked k) cds)) k1"
        by (simp_all add: count_try_def count_coda_char)
      with tok ons cds True False show ?thesis
        by (simp add: k1_def)
    next
      case t2: True
      then have co: "count_coda cds k1 = Completed (fold hit_coda (map fst cds) k1)"
        by (simp add: count_coda_char tr)
      with assms ons on cds
      have "v' = v" "k' = fold hit_coda (map fst cds) k1" "tok_nucleus token \<notin> dom v"
        by (auto simp add: count_try_def split: option.splits)
      with tok ons cds True t2 show ?thesis
        by (simp add: k1_def)
    qed
  qed
qed

theorem count_try_failure_witness:
  "count_try \<lparr>tok_token = ''baia'', tok_nucleus = ''ai'', tok_onset = ''b'', tok_coda = ''a''\<rparr>
     (vocab_counters_init, kons_counters_init) =
   Some (Raised (KeyError ''a'')
     (vocab_counters_init, kons_counters_init(''b'' \<mapsto> \<lparr>cnt_onset = 1, cnt_coda = 0\<rparr>))) \<and>
   count_tokens
     [\<lparr>tok_token = ''baia'', tok_nucleus = ''ai'', tok_onset = ''b'', tok_coda = ''a''\<rparr>]
     (vocab_counters_init, kons_counters_init) =
   Some (vocab_counters_init, kons_counters_init(''b'' \<mapsto> \<lparr>cnt_onset = 1, cnt_coda = 0\<rparr>))"
  using count_try_failure [OF count_try_baia, of "[]"] count_try_baia by simp

text \<open>
  C8. Before any token every entry of \<open>cons\<close> is counted \<open>onset 0, coda 0\<close> and every
  entry of \<open>vocabs\<close> is counted 0, and these are the only keys. On the words \<open>ba\<close> and
  \<open>ban\<close>, with the parser that gives each word as its one token, the vowel \<open>a\<close> is
  counted 2, the consonant \<open>b\<close> has onset 2 and coda 0, the consonant \<open>n\<close> has onset 0
  and coda 1, every other entry is still at zero, and the keys are the same.
\<close>

theorem count_syllables_ba_ban:
  "count_syllables [] = Some \<lparr>vocab = vocab_counters_init, kons = kons_counters_init\<rparr> \<and>
   dom vocab_counters_init = set vocabs \<and> dom kons_counters_init = set cons \<and>
   map vocab_counters_init vocabs = map (\<lambda>c. Some 0) vocabs \<and>
   map kons_counters_init cons = map (\<lambda>c. Some \<lparr>cnt_onset = 0, cnt_coda = 0\<rparr>) cons \<and>
   count_syllables (tokenize (\<lambda>w. [w]) [''ba'', ''ban'']) =
     Some \<lparr>vocab = vocab_counters_init(''a'' \<mapsto> 2),
           kons = kons_counters_init(''b'' \<mapsto> \<lparr>cnt_onset = 2, cnt_coda = 0\<rparr>,
                                     ''n'' \<mapsto> \<lparr>cnt_onset = 0, cnt_coda = 1\<rparr>)\<rparr> \<and>
   map (vocab_counters_init(''a'' \<mapsto> 2)) vocabs =
     [Some 0, Some 0, Some 0, Some 0, Some 2, Some 0, Some 0, Some 0, Some 0] \<and>
   map (kons_counters_init(''b'' \<mapsto> \<lparr>cnt_onset = 2, cnt_coda = 0\<rparr>,
                           ''n'' \<mapsto> \<lparr>cnt_onset = 0, cnt_coda = 1\<rparr>)) cons =
     map (\<lambda>c. Some \<lparr>cnt_onset = (if c = ''b'' then 2 else 0),
                     cnt_coda = (if c = ''n'' then 1 else 0)\<rparr>) cons \<and>
   dom (vocab_counters_init(''a'' \<mapsto> 2)) = set vocabs \<and>
   dom (kons_counters_init(''b'' \<mapsto> \<lparr>cnt_onset = 2, cnt_coda = 0\<rparr>,
                           ''n'' \<mapsto> \<lparr>cnt_onset = 0, cnt_coda = 1\<rparr>)) = set cons"
proof -
  have "count_syllables [] = Some \<lparr>vocab = vocab_counters_init, kons = kons_counters_init\<rparr>"
    by (simp add: count_syllables_def)
  moreover have "map vocab_counters_init vocabs = map (\<lambda>c. Some 0) vocabs"
    by (simp add: vocab_counters_init_def vocabs_def)
  moreover have "map kons_counters_init cons =
      map (\<lambda>c. Some \<lparr>cnt_onset = 0, cnt_coda = 0\<rparr>) cons"
    by (simp add: kons_counters_init_def cons_def)
  moreover have "count_syllables (tokenize (\<lambda>w. [w]) [''ba'', ''ban'']) =
     Some \<lparr>vocab = vocab_counters_init(''a'' \<mapsto> 2),
           kons = kons_counters_init(''b'' \<mapsto> \<lparr>cnt_onset = 2, cnt_coda = 0\<rparr>,
                                     ''n'' \<mapsto> \<lparr>cnt_onset = 0, cnt_coda = 1\<rparr>)\<rparr>"
    by (simp add: count_syllables_def count_data_ba_ban)
  moreover have "map (vocab_counters_init(''a'' \<mapsto> 2)) vocabs =
     [Some 0, Some 0, Some 0, Some 0, Some 2, Some 0, Some 0, Some 0, Some 0]"
    by (simp add: vocab_counters_init_def vocabs_def)
  moreover have "map (kons_counters_init(''b'' \<mapsto> \<lparr>cnt_onset = 2, cnt_coda = 0\<rparr>,
                           ''n'' \<mapsto> \<lparr>cnt_onset = 0, cnt_coda = 1\<rparr>)) cons =
     map (\<lambda>c. Some \<lparr>cnt_onset = (if c = ''b'' then 2 else 0),
                     cnt_coda = (if c = ''n'' then 1 else 0)\<rparr>) cons"
    by (simp add: kons_counters_init_def cons_def)
  moreover have "dom (vocab_counters_init(''a'' \<mapsto> 2)) = set vocabs"
    by (auto simp add: dom_vocab_counters_init vocabs_def)
  moreover have "dom (kons_counters_init(''b'' \<mapsto> \<lparr>cnt_onset = 2, cnt_coda = 0\<rparr>,
                           ''n'' \<mapsto> \<lparr>cnt_onset = 0, cnt_coda = 1\<rparr>)) = set cons"
    by (auto simp add: dom_kons_counters_init cons_def)
  ultimately show ?thesis
    using dom_vocab_counters_init dom_kons_counters_init by simp
qed


section \<open>count\_in\_map\<close>

lemma point_idem:
  "FDPoint_count_in_map p m = Inr p' \<Longrightarrow> FDPoint_count_in_map p' m = Inr p'"
  by (auto simp: FDPoint_count_in_map_def split: option.splits if_splits counter_value.splits)

lemma point_frame_step: "FDPoint_count_in_map p m = Inr p' \<Longrightarrow> point_frame m p p'"
  by (auto simp: FDPoint_count_in_map_def point_frame_def
      split: option.splits if_splits counter_value.splits)

lemma point_raise_iff: "(\<exists>e. FDPoint_count_in_map p m = Inl e) \<longleftrightarrow> shape_mismatch m p"
  by (auto simp: FDPoint_count_in_map_def shape_mismatch_def fits_letter_def
      split: option.splits if_splits counter_value.splits)

lemma point_absent: "letter p \<notin> dom m \<Longrightarrow> FDPoint_count_in_map p m = Inr p"
  by (simp add: FDPoint_count_in_map_def domIff)

lemma point_frame_refl: "point_frame m p p"
  by (simp add: point_frame_def)

text \<open>The loop over the points: a second run repeats the first.\<close>

lemma points_idem:
  "points_count_in_map (outcome_state (points_count_in_map ps m)) m = points_count_in_map ps m"
proof (induction ps)
  case Nil
  show ?case by simp
next
  case (Cons kp ps)
  obtain k p where kp: "kp = (k, p)" by (cases kp)
  show ?case
  proof (cases "FDPoint_count_in_map p m")
    case (Inl e)
    then show ?thesis by (simp add: kp)
  next
    case (Inr p')
    then have again: "FDPoint_count_in_map p' m = Inr p'"
      by (rule point_idem)
    show ?thesis
    proof (cases "points_count_in_map ps m")
      case (Completed ps')
      with Cons.IH Inr again show ?thesis by (simp add: kp)
    next
      case (Raised e ps')
      with Cons.IH Inr again show ?thesis by (simp add: kp)
    qed
  qed
qed

lemma points_frame:
  "map fst (outcome_state (points_count_in_map ps m)) = map fst ps \<and>
   list_all2 (point_frame m) (map snd ps) (map snd (outcome_state (points_count_in_map ps m)))"
proof (induction ps)
  case Nil
  show ?case by simp
next
  case (Cons kp ps)
  obtain k p where kp: "kp = (k, p)" by (cases kp)
  show ?case
  proof (cases "FDPoint_count_in_map p m")
    case (Inl e)
    then show ?thesis
      by (simp add: kp point_frame_refl list.rel_map list.rel_refl)
  next
    case (Inr p')
    then have "point_frame m p p'"
      by (rule point_frame_step)
    with Cons.IH Inr show ?thesis
      by (cases "points_count_in_map ps m") (simp_all add: kp)
  qed
qed

lemma points_raise_iff:
  "is_raised (points_count_in_map ps m) \<longleftrightarrow> (\<exists>p\<in>set (map snd ps). shape_mismatch m p)"
proof (induction ps)
  case Nil
  show ?case by simp
next
  case (Cons kp ps)
  obtain k p where kp: "kp = (k, p)" by (cases kp)
  show ?case
  proof (cases "FDPoint_count_in_map p m")
    case (Inl e)
    then have "shape_mismatch m p"
      using point_raise_iff by blast
    with Inl show ?thesis by (simp add: kp)
  next
    case (Inr p')
    then have "\<not> shape_mismatch m p"
      using point_raise_iff [of p m] by auto
    with Cons.IH Inr show ?thesis
      by (cases "points_count_in_map ps m") (simp_all add: kp)
  qed
qed

lemma points_absent:
  "\<forall>p\<in>set (map snd ps). letter p \<notin> dom m \<Longrightarrow> points_count_in_map ps m = Completed ps"
proof (induction ps)
  case Nil
  show ?case by simp
next
  case (Cons kp ps)
  obtain k p where kp: "kp = (k, p)" by (cases kp)
  with Cons.prems have "FDPoint_count_in_map p m = Inr p"
    by (simp add: point_absent)
  with Cons show ?case
    by (simp add: kp)
qed

text \<open>The same for one polarity, one description and the list of descriptions.\<close>

lemma type_idem:
  "FDType_count_in_map (outcome_state (FDType_count_in_map t m)) m = FDType_count_in_map t m"
proof -
  have "points_count_in_map (outcome_state (points_count_in_map (points t) m)) m =
        points_count_in_map (points t) m"
    by (rule points_idem)
  then show ?thesis
    by (cases "points_count_in_map (points t) m") (simp_all add: FDType_count_in_map_def)
qed

lemma type_frame_step: "type_frame m t (outcome_state (FDType_count_in_map t m))"
  using points_frame [of "points t" m]
  by (cases "points_count_in_map (points t) m")
    (simp_all add: FDType_count_in_map_def type_frame_def)

lemma type_raise_iff:
  "is_raised (FDType_count_in_map t m) \<longleftrightarrow> (\<exists>p\<in>set (map snd (points t)). shape_mismatch m p)"
  using points_raise_iff [of "points t" m]
  by (cases "points_count_in_map (points t) m") (simp_all add: FDType_count_in_map_def)

lemma type_absent:
  "\<forall>p\<in>set (map snd (points t)). letter p \<notin> dom m \<Longrightarrow> FDType_count_in_map t m = Completed t"
  by (simp add: FDType_count_in_map_def points_absent)

lemma type_frame_refl: "type_frame m t t"
  by (simp add: type_frame_def list.rel_refl point_frame_refl)

lemma fd_idem: "FD_count_in_map (outcome_state (FD_count_in_map fd m)) m = FD_count_in_map fd m"
proof (cases "FDType_count_in_map (fd_plus fd) m")
  case (Raised e p)
  with type_idem [of "fd_plus fd" m] show ?thesis
    by (simp add: FD_count_in_map_def)
next
  case (Completed p)
  with type_idem [of "fd_plus fd" m] have p: "FDType_count_in_map p m = Completed p"
    by simp
  show ?thesis
  proof (cases "FDType_count_in_map (fd_minus fd) m")
    case (Raised e mi)
    with type_idem [of "fd_minus fd" m] Completed p show ?thesis
      by (simp add: FD_count_in_map_def)
  next
    case c2: (Completed mi)
    with type_idem [of "fd_minus fd" m] Completed p show ?thesis
      by (simp add: FD_count_in_map_def)
  qed
qed

lemma fd_frame_step: "fd_frame m fd (outcome_state (FD_count_in_map fd m))"
  using type_frame_step [of m "fd_plus fd"] type_frame_step [of m "fd_minus fd"]
  by (cases "FDType_count_in_map (fd_plus fd) m"; cases "FDType_count_in_map (fd_minus fd) m")
    (simp_all add: FD_count_in_map_def fd_frame_def type_frame_refl)

lemma fd_raise_iff:
  "is_raised (FD_count_in_map fd m) \<longleftrightarrow> (\<exists>p\<in>set (all_points fd). shape_mismatch m p)"
  using type_raise_iff [of "fd_plus fd" m] type_raise_iff [of "fd_minus fd" m]
  by (cases "FDType_count_in_map (fd_plus fd) m"; cases "FDType_count_in_map (fd_minus fd) m")
    (auto simp add: FD_count_in_map_def all_points_def)

lemma fd_absent:
  "\<forall>p\<in>set (all_points fd). letter p \<notin> dom m \<Longrightarrow> FD_count_in_map fd m = Completed fd"
  by (simp add: FD_count_in_map_def all_points_def type_absent ball_Un)

lemma fd_frame_refl: "fd_frame m fd fd"
  by (simp add: fd_frame_def type_frame_refl)

lemma all_idem:
  "count_in_map_all (outcome_state (count_in_map_all fds m)) m = count_in_map_all fds m"
proof (induction fds)
  case Nil
  show ?case by simp
next
  case (Cons fd fds)
  show ?case
  proof (cases "FD_count_in_map fd m")
    case (Raised e fd')
    with fd_idem [of fd m] show ?thesis by simp
  next
    case (Completed fd')
    with fd_idem [of fd m] have "FD_count_in_map fd' m = Completed fd'"
      by simp
    with Cons.IH Completed show ?thesis
      by (cases "count_in_map_all fds m") simp_all
  qed
qed

lemma all_frame: "list_all2 (fd_frame m) fds (outcome_state (count_in_map_all fds m))"
proof (induction fds)
  case Nil
  show ?case by simp
next
  case (Cons fd fds)
  with fd_frame_step [of m fd] show ?case
    by (cases "FD_count_in_map fd m"; cases "count_in_map_all fds m")
      (simp_all add: list.rel_refl fd_frame_refl)
qed

lemma all_raise_iff:
  "is_raised (count_in_map_all fds m) \<longleftrightarrow>
   (\<exists>fd\<in>set fds. \<exists>p\<in>set (all_points fd). shape_mismatch m p)"
proof (induction fds)
  case Nil
  show ?case by simp
next
  case (Cons fd fds)
  with fd_raise_iff [of fd m] show ?case
    by (cases "FD_count_in_map fd m"; cases "count_in_map_all fds m") auto
qed

lemma all_absent:
  "\<forall>fd\<in>set fds. \<forall>p\<in>set (all_points fd). letter p \<notin> dom m \<Longrightarrow>
   count_in_map_all fds m = Completed fds"
  by (induction fds) (simp_all add: fd_absent)

section \<open>Evaluating the loader\<close>

lemma strip_b_plus: "strip ''b +'' = ''b +''"
  by (simp add: strip_def is_space_def)

lemma strip_p_minus: "strip ''p -'' = ''p -''"
  by (simp add: strip_def is_space_def)

lemma load_voice:
  "load_fitures_spec [''voice''] [''b +'', ''p -''] =
    [\<lparr>fd_name = ''voice'',
      fd_plus = \<lparr>ftype = ''plus'',
                 points = [(''b'', \<lparr>letter = ''b'', nucleus = 0, coda = 0, onset = 0\<rparr>)]\<rparr>,
      fd_minus = \<lparr>ftype = ''minus'',
                  points = [(''p'', \<lparr>letter = ''p'', nucleus = 0, coda = 0, onset = 0\<rparr>)]\<rparr>\<rparr>]"
  by (simp add: load_fitures_spec_def strip_b_plus strip_p_minus add_letter_def)


section \<open>The keys of the counters\<close>

lemma dom_fold_hit_onset: "dom (fold hit_onset cs k) = dom k"
  by (induction cs arbitrary: k) (simp_all add: dom_hit_onset)

lemma dom_fold_hit_coda: "dom (fold hit_coda cs k) = dom k"
  by (induction cs arbitrary: k) (simp_all add: dom_hit_coda)

lemma count_onset_dom: "dom (outcome_state (count_onset us k)) = dom k"
  by (simp add: count_onset_char dom_fold_hit_onset)

lemma count_coda_dom: "dom (outcome_state (count_coda us k)) = dom k"
  by (simp add: count_coda_char dom_fold_hit_coda)

lemma count_token_dom:
  assumes "count_token token (v, k) = Some (v', k')"
  shows "dom v' = dom v \<and> dom k' = dom k"
proof -
  from assms obtain ons where ons: "split_char (tok_onset token) = Some ons"
    by (auto simp: count_token_def count_try_def split: option.splits)
  show ?thesis
  proof (cases "count_onset ons k")
    case (Raised e k1)
    with assms ons count_onset_dom [of ons k] show ?thesis
      by (auto simp: count_token_def count_try_def)
  next
    case (Completed k1)
    with count_onset_dom [of ons k] have k1: "dom k1 = dom k"
      by simp
    from assms ons Completed obtain cds where cds: "split_char (tok_coda token) = Some cds"
      by (auto simp: count_token_def count_try_def split: option.splits)
    show ?thesis
    proof (cases "count_coda cds k1")
      case r2: (Raised e k2)
      with assms ons Completed cds count_coda_dom [of cds k1] k1 show ?thesis
        by (auto simp: count_token_def count_try_def)
    next
      case c2: (Completed k2)
      with count_coda_dom [of cds k1] k1 have k2: "dom k2 = dom k"
        by simp
      from assms ons Completed cds c2
      have alt: "v' = v \<or> (\<exists>n. v (tok_nucleus token) = Some n \<and>
                v' = v(tok_nucleus token \<mapsto> n + 1))" and kk: "k' = k2"
        by (auto simp: count_token_def count_try_def split: option.splits)
      have upd: "dom (v(tok_nucleus token \<mapsto> n + 1)) = dom v"
        if "v (tok_nucleus token) = Some n" for n
        using that by (simp add: insert_absorb domI)
      from alt have "dom v' = dom v"
      proof
        assume "v' = v"
        then show ?thesis by simp
      next
        assume "\<exists>n. v (tok_nucleus token) = Some n \<and> v' = v(tok_nucleus token \<mapsto> n + 1)"
        then obtain n where "v (tok_nucleus token) = Some n"
          "v' = v(tok_nucleus token \<mapsto> n + 1)"
          by blast
        then show ?thesis
          by (metis upd)
      qed
      with k2 kk show ?thesis
        by simp
    qed
  qed
qed

lemma count_tokens_dom:
  "count_tokens toks (v, k) = Some (v', k') \<Longrightarrow> dom v' = dom v \<and> dom k' = dom k"
proof (induction toks arbitrary: v k)
  case Nil
  then show ?case by simp
next
  case (Cons tok toks)
  from Cons.prems obtain v1 k1 where one: "count_token tok (v, k) = Some (v1, k1)"
    and rest: "count_tokens toks (v1, k1) = Some (v', k')"
    by (auto split: option.splits)
  from count_token_dom [OF one] Cons.IH [OF rest] show ?case
    by simp
qed

lemma count_data_dom:
  "count_data ds (v, k) = Some (v', k') \<Longrightarrow> dom v' = dom v \<and> dom k' = dom k"
proof (induction ds arbitrary: v k)
  case Nil
  then show ?case by simp
next
  case (Cons d ds)
  from Cons.prems obtain v1 k1 where one: "count_tokens (pw_tokens d) (v, k) = Some (v1, k1)"
    and rest: "count_data ds (v1, k1) = Some (v', k')"
    by (auto split: option.splits)
  from count_tokens_dom [OF one] Cons.IH [OF rest] show ?case
    by simp
qed

lemma count_syllables_dom:
  assumes "count_syllables tokens = Some counter"
  shows "dom (vocab counter) = set vocabs" and "dom (kons counter) = set cons"
proof -
  from assms obtain v k where
    st: "count_data tokens (vocab_counters_init, kons_counters_init) = Some (v, k)"
    and c: "counter = \<lparr>vocab = v, kons = k\<rparr>"
    by (auto simp: count_syllables_def)
  from count_data_dom [OF st] show "dom (vocab counter) = set vocabs"
    and "dom (kons counter) = set cons"
    by (simp_all add: c dom_vocab_counters_init dom_kons_counters_init)
qed

text \<open>The maps of \<open>count_syllables\<close> hold, at each key, a value of the shape of the key.\<close>

lemma ckons_fits:
  assumes "count_syllables tokens = Some counter"
  shows "\<not> shape_mismatch (ckons counter) p"
proof (cases "kons counter (letter p)")
  case None
  then show ?thesis
    by (simp add: shape_mismatch_def ckons_def)
next
  case (Some e)
  then have "letter p \<in> set cons"
    using count_syllables_dom(2) [OF assms] by auto
  then have "\<not> is_vocal (letter p)"
    using cons_not_vocabs by (simp add: is_vocal_def)
  with Some show ?thesis
    by (simp add: shape_mismatch_def ckons_def fits_letter_def)
qed

lemma cvoc_fits:
  assumes "count_syllables tokens = Some counter"
  shows "\<not> shape_mismatch (cvoc counter) p"
proof (cases "vocab counter (letter p)")
  case None
  then show ?thesis
    by (simp add: shape_mismatch_def cvoc_def)
next
  case (Some n)
  then have "is_vocal (letter p)"
    using count_syllables_dom(1) [OF assms] by (auto simp: is_vocal_def)
  with Some show ?thesis
    by (simp add: shape_mismatch_def cvoc_def fits_letter_def)
qed

section \<open>Claims on the feature descriptions\<close>

lemma load_high:
  "load_fitures_spec [''high''] [''i +'', ''a -''] =
    [\<lparr>fd_name = ''high'',
      fd_plus = \<lparr>ftype = ''plus'',
                 points = [(''i'', \<lparr>letter = ''i'', nucleus = 0, coda = 0, onset = 0\<rparr>)]\<rparr>,
      fd_minus = \<lparr>ftype = ''minus'',
                  points = [(''a'', \<lparr>letter = ''a'', nucleus = 0, coda = 0, onset = 0\<rparr>)]\<rparr>\<rparr>]"
  by (simp add: load_fitures_spec_def strip_def is_space_def add_letter_def)

text \<open>
  C4, as the code has it. The description \<open>voice\<close> of the consonants \<open>b\<close> and \<open>p\<close>,
  counted in the vowel map of \<open>count_syllables\<close>, and the description \<open>high\<close> of the
  vowels \<open>i\<close> and \<open>a\<close>, counted in its consonant map, both return without an
  exception and unchanged: the letters are no keys of the other map, and
  \<open>FDPoint.count_in_map\<close> returns at once for a letter that is no key.
\<close>

theorem count_in_map_wrong_map_counterexample:
  "count_syllables [] = Some \<lparr>vocab = vocab_counters_init, kons = kons_counters_init\<rparr> \<and>
   count_in_map_all (load_fitures_spec [''voice''] [''b +'', ''p -''])
     (cvoc \<lparr>vocab = vocab_counters_init, kons = kons_counters_init\<rparr>) =
   Completed (load_fitures_spec [''voice''] [''b +'', ''p -'']) \<and>
   count_in_map_all (load_fitures_spec [''high''] [''i +'', ''a -''])
     (ckons \<lparr>vocab = vocab_counters_init, kons = kons_counters_init\<rparr>) =
   Completed (load_fitures_spec [''high''] [''i +'', ''a -''])"
proof -
  have "count_syllables [] = Some \<lparr>vocab = vocab_counters_init, kons = kons_counters_init\<rparr>"
    by (simp add: count_syllables_def)
  moreover have "count_in_map_all (load_fitures_spec [''voice''] [''b +'', ''p -''])
     (cvoc \<lparr>vocab = vocab_counters_init, kons = kons_counters_init\<rparr>) =
   Completed (load_fitures_spec [''voice''] [''b +'', ''p -''])"
    by (simp add: load_voice FD_count_in_map_def FDType_count_in_map_def
        FDPoint_count_in_map_def cvoc_def vocab_counters_init_def vocabs_def)
  moreover have "count_in_map_all (load_fitures_spec [''high''] [''i +'', ''a -''])
     (ckons \<lparr>vocab = vocab_counters_init, kons = kons_counters_init\<rparr>) =
   Completed (load_fitures_spec [''high''] [''i +'', ''a -''])"
    by (simp add: load_high FD_count_in_map_def FDType_count_in_map_def
        FDPoint_count_in_map_def ckons_def kons_counters_init_def cons_def)
  ultimately show ?thesis
    by simp
qed

text \<open>
  C4, amended. The loop of \<open>count_in_map\<close> over the descriptions raises exactly when
  some point has its letter as a key of the map with a value of the wrong shape: no
  \<open>int\<close> for a letter of \<open>vocabs\<close>, no \<open>dict\<close> with \<open>'coda'\<close> and \<open>'onset'\<close> for any
  other letter. A letter that is no key of the map is passed over without an exception:
  descriptions all of whose letters are absent from the map come back unchanged. With
  the two maps of \<open>count_syllables\<close> no description ever raises.
\<close>

theorem count_in_map_all_raises_iff:
  "(is_raised (count_in_map_all fds m) \<longleftrightarrow>
      (\<exists>fd\<in>set fds. \<exists>p\<in>set (all_points fd). shape_mismatch m p)) \<and>
   ((\<forall>fd\<in>set fds. \<forall>p\<in>set (all_points fd). letter p \<notin> dom m) \<longrightarrow>
      count_in_map_all fds m = Completed fds) \<and>
   (count_syllables tokens = Some counter \<longrightarrow>
      \<not> is_raised (count_in_map_all fds (ckons counter)) \<and>
      \<not> is_raised (count_in_map_all fds (cvoc counter)))"
  using all_raise_iff [of fds m] all_absent [of fds m]
    all_raise_iff [of fds "ckons counter"] all_raise_iff [of fds "cvoc counter"]
    ckons_fits [of tokens counter] cvoc_fits [of tokens counter]
  by blast

theorem count_in_map_all_raises_iff_witness:
  "shape_mismatch [''a'' \<mapsto> DictVal [''onset'' \<mapsto> 1, ''coda'' \<mapsto> 0]]
     \<lparr>letter = ''a'', nucleus = 0, coda = 0, onset = 0\<rparr> \<and>
   is_raised (count_in_map_all (load_fitures_spec [''high''] [''i +'', ''a -''])
     [''a'' \<mapsto> DictVal [''onset'' \<mapsto> 1, ''coda'' \<mapsto> 0]]) \<and>
   ''b'' \<notin> dom [''a'' \<mapsto> IntVal 2] \<and> ''p'' \<notin> dom [''a'' \<mapsto> IntVal 2] \<and>
   count_in_map_all (load_fitures_spec [''voice''] [''b +'', ''p -'']) [''a'' \<mapsto> IntVal 2] =
     Completed (load_fitures_spec [''voice''] [''b +'', ''p -'']) \<and>
   count_syllables [] = Some \<lparr>vocab = vocab_counters_init, kons = kons_counters_init\<rparr> \<and>
   \<not> is_raised (count_in_map_all (load_fitures_spec [''voice''] [''b +'', ''p -''])
     (cvoc \<lparr>vocab = vocab_counters_init, kons = kons_counters_init\<rparr>))"
proof -
  have h: "count_syllables [] = Some \<lparr>vocab = vocab_counters_init, kons = kons_counters_init\<rparr>"
    by (simp add: count_syllables_def)
  from count_in_map_all_raises_iff
    [of "load_fitures_spec [''high''] [''i +'', ''a -'']"
      "[''a'' \<mapsto> DictVal [''onset'' \<mapsto> 1, ''coda'' \<mapsto> 0]]"]
    count_in_map_all_raises_iff
    [of "load_fitures_spec [''voice''] [''b +'', ''p -'']" "[''a'' \<mapsto> IntVal 2]"
      "[]" "\<lparr>vocab = vocab_counters_init, kons = kons_counters_init\<rparr>"] h
  show ?thesis
    by (simp add: load_voice load_high all_points_def shape_mismatch_def fits_letter_def
        is_vocal_def vocabs_def)
qed

text \<open>
  C9. Counting a list of descriptions in a map a second time changes nothing: the
  second run ends as the first did, with the same descriptions and the same documents.
  This holds for any descriptions, in particular for those \<open>load_fitures_spec\<close> builds
  from the lines of a file. The counts are assigned from the map, never added to.
\<close>

theorem count_in_map_all_idempotent:
  "count_in_map_all (outcome_state (count_in_map_all fds m)) m = count_in_map_all fds m \<and>
   count_in_map_all
     (outcome_state (count_in_map_all (load_fitures_spec fiturs lines) m)) m =
   count_in_map_all (load_fitures_spec fiturs lines) m \<and>
   documents (outcome_state (count_in_map_all
     (outcome_state (count_in_map_all (load_fitures_spec fiturs lines) m)) m)) tag =
   documents (outcome_state (count_in_map_all (load_fitures_spec fiturs lines) m)) tag"
  by (simp add: all_idem)

lemma shape_mismatch_present: "shape_mismatch m p \<Longrightarrow> letter p \<in> dom m"
  by (auto simp: shape_mismatch_def split: option.splits)

text \<open>
  C10. Whether it returns or raises, the loop of \<open>count_in_map\<close> leaves every
  description with its name, each polarity with its \<open>ftype\<close>, its keys and their order,
  every point with its letter, and every point whose letter is no key of the map with
  all its counts. A letter that is no key of the map is no error: the method returns
  on such a point, with the point as it was; descriptions all of whose letters are
  absent from the map are returned as they were; and when the loop does raise, it is
  at a point whose letter is a key of the map, with a value of the wrong shape.
\<close>

theorem count_in_map_all_frame:
  "list_all2 (fd_frame m) fds (outcome_state (count_in_map_all fds m)) \<and>
   (letter p \<notin> dom m \<longrightarrow> FDPoint_count_in_map p m = Inr p) \<and>
   ((\<forall>fd\<in>set fds. \<forall>q\<in>set (all_points fd). letter q \<notin> dom m) \<longrightarrow>
      count_in_map_all fds m = Completed fds) \<and>
   (is_raised (count_in_map_all fds m) \<longrightarrow>
      (\<exists>fd\<in>set fds. \<exists>q\<in>set (all_points fd). letter q \<in> dom m \<and> shape_mismatch m q))"
proof -
  have "\<exists>fd\<in>set fds. \<exists>q\<in>set (all_points fd). letter q \<in> dom m \<and> shape_mismatch m q"
    if "is_raised (count_in_map_all fds m)"
    using that all_raise_iff [of fds m] shape_mismatch_present [of m] by blast
  then show ?thesis
    using all_frame [of m fds] point_absent [of p m] all_absent [of fds m] by blast
qed

theorem count_in_map_all_frame_witness:
  "''p'' \<notin> dom [''b'' \<mapsto> DictVal [''onset'' \<mapsto> 2, ''coda'' \<mapsto> 0]] \<and>
   FDPoint_count_in_map \<lparr>letter = ''p'', nucleus = 0, coda = 0, onset = 0\<rparr>
     [''b'' \<mapsto> DictVal [''onset'' \<mapsto> 2, ''coda'' \<mapsto> 0]] =
   Inr \<lparr>letter = ''p'', nucleus = 0, coda = 0, onset = 0\<rparr> \<and>
   count_in_map_all (load_fitures_spec [''voice''] [''b +'', ''p -''])
     [''b'' \<mapsto> DictVal [''onset'' \<mapsto> 2, ''coda'' \<mapsto> 0]] =
   Completed
    [\<lparr>fd_name = ''voice'',
      fd_plus = \<lparr>ftype = ''plus'',
                 points = [(''b'', \<lparr>letter = ''b'', nucleus = 0, coda = 0, onset = 2\<rparr>)]\<rparr>,
      fd_minus = \<lparr>ftype = ''minus'',
                  points = [(''p'', \<lparr>letter = ''p'', nucleus = 0, coda = 0, onset = 0\<rparr>)]\<rparr>\<rparr>] \<and>
   list_all2 (fd_frame [''b'' \<mapsto> DictVal [''onset'' \<mapsto> 2, ''coda'' \<mapsto> 0]])
     (load_fitures_spec [''voice''] [''b +'', ''p -''])
     (outcome_state (count_in_map_all (load_fitures_spec [''voice''] [''b +'', ''p -''])
        [''b'' \<mapsto> DictVal [''onset'' \<mapsto> 2, ''coda'' \<mapsto> 0]])) \<and>
   ''b'' \<notin> dom [''a'' \<mapsto> IntVal 2] \<and> ''p'' \<notin> dom [''a'' \<mapsto> IntVal 2] \<and>
   count_in_map_all (load_fitures_spec [''voice''] [''b +'', ''p -'']) [''a'' \<mapsto> IntVal 2] =
     Completed (load_fitures_spec [''voice''] [''b +'', ''p -'']) \<and>
   is_raised (count_in_map_all (load_fitures_spec [''high''] [''i +'', ''a -''])
     [''a'' \<mapsto> DictVal [''onset'' \<mapsto> 1, ''coda'' \<mapsto> 0]]) \<and>
   ''a'' \<in> dom [''a'' \<mapsto> DictVal [''onset'' \<mapsto> 1, ''coda'' \<mapsto> 0]] \<and>
   ''i'' \<notin> dom [''a'' \<mapsto> DictVal [''onset'' \<mapsto> 1, ''coda'' \<mapsto> 0]]"
  using count_in_map_all_frame
    [of "[''b'' \<mapsto> DictVal [''onset'' \<mapsto> 2, ''coda'' \<mapsto> 0]]"
      "load_fitures_spec [''voice''] [''b +'', ''p -'']"
      "\<lparr>letter = ''p'', nucleus = 0, coda = 0, onset = 0\<rparr>"]
    count_in_map_all_frame
    [of "[''a'' \<mapsto> IntVal 2]" "load_fitures_spec [''voice''] [''b +'', ''p -'']"]
    count_in_map_all_frame
    [of "[''a'' \<mapsto> DictVal [''onset'' \<mapsto> 1, ''coda'' \<mapsto> 0]]"
      "load_fitures_spec [''high''] [''i +'', ''a -'']"]
  by (simp add: load_voice load_high all_points_def FD_count_in_map_def
      FDType_count_in_map_def FDPoint_count_in_map_def is_vocal_def vocabs_def)

end
